theory Spec2Isabelle
  imports Complex_Main
begin

section \<open>Strings and messages\<close>

text \<open>
  A Python \<open>str\<close> is modelled as a \<open>string\<close> holding its UTF-8 bytes. The literals of
  \<open>main.py\<close> that are written in Cyrillic are given byte by byte. UTF-8 is
  self-synchronising, so the test \<open>a in b\<close> on two Python strings has the same answer as
  the search for the bytes of \<open>a\<close> in the bytes of \<open>b\<close>.
\<close>

fun startswith :: "string \<Rightarrow> string \<Rightarrow> bool" where
  "startswith s [] = True"
| "startswith [] (p # ps) = False"
| "startswith (c # cs) (p # ps) = (c = p \<and> startswith cs ps)"

text \<open>\<open>contains sub s\<close> is Python's \<open>sub in s\<close>.\<close>

fun contains :: "string \<Rightarrow> string \<Rightarrow> bool" where
  "contains sub [] = (sub = [])"
| "contains sub (c # cs) = (startswith (c # cs) sub \<or> contains sub cs)"

text \<open>\<open>str(n)\<close> for an integer: decimal digits, with a minus sign when negative.\<close>

definition digit_char :: "nat \<Rightarrow> char" where
  "digit_char d = char_of (48 + d)"

fun str_nat :: "nat \<Rightarrow> string" where
  "str_nat n = (if n < 10 then [digit_char n] else str_nat (n div 10) @ [digit_char (n mod 10)])"

definition str_int :: "int \<Rightarrow> string" where
  "str_int i = (if i < 0 then CHR ''-'' # str_nat (nat (- i)) else str_nat (nat i))"

text \<open>The message texts of \<open>promote_product_with_retry\<close> and of the cycle.\<close>

definition promoted_prefix :: string where
  \<comment> \<open>the text before \<open>{premium_priority.name}\<close> in the success message (line 499)\<close>
  "promoted_prefix =
     [CHR 0xD0, CHR 0x9F, CHR 0xD1, CHR 0x80, CHR 0xD0, CHR 0xBE, CHR 0xD0, CHR 0xB4,
      CHR 0xD0, CHR 0xB2, CHR 0xD0, CHR 0xB8, CHR 0xD0, CHR 0xBD, CHR 0xD1, CHR 0x83,
      CHR 0xD1, CHR 0x82, CHR 0x20, CHR 0xD1, CHR 0x81, CHR 0xD0, CHR 0xBE, CHR 0x20,
      CHR 0xD1, CHR 0x81, CHR 0xD1, CHR 0x82, CHR 0xD0, CHR 0xB0, CHR 0xD1, CHR 0x82,
      CHR 0xD1, CHR 0x83, CHR 0xD1, CHR 0x81, CHR 0xD0, CHR 0xBE, CHR 0xD0, CHR 0xBC,
      CHR 0x3A, CHR 0x20]"

definition exhausted_prefix :: string where
  \<comment> \<open>the text before \<open>{max_retries}\<close> in the message of line 527\<close>
  "exhausted_prefix =
     [CHR 0xD0, CHR 0x9F, CHR 0xD1, CHR 0x80, CHR 0xD0, CHR 0xB5, CHR 0xD0, CHR 0xB2,
      CHR 0xD1, CHR 0x8B, CHR 0xD1, CHR 0x88, CHR 0xD0, CHR 0xB5, CHR 0xD0, CHR 0xBD,
      CHR 0x20, CHR 0xD0, CHR 0xBB, CHR 0xD0, CHR 0xB8, CHR 0xD0, CHR 0xBC, CHR 0xD0,
      CHR 0xB8, CHR 0xD1, CHR 0x82, CHR 0x20, CHR 0xD0, CHR 0xBF, CHR 0xD0, CHR 0xBE,
      CHR 0xD0, CHR 0xBF, CHR 0xD1, CHR 0x8B, CHR 0xD1, CHR 0x82, CHR 0xD0, CHR 0xBE,
      CHR 0xD0, CHR 0xBA, CHR 0x20, CHR 0xD0, CHR 0xBF, CHR 0xD0, CHR 0xBE, CHR 0xD1,
      CHR 0x81, CHR 0xD0, CHR 0xBB, CHR 0xD0, CHR 0xB5, CHR 0x20]"

definition skip_marker :: string where
  \<comment> \<open>the text the cycle looks for in a failure message (line 718)\<close>
  "skip_marker =
     [CHR 0xD0, CHR 0x9F, CHR 0xD1, CHR 0x80, CHR 0xD0, CHR 0xBE, CHR 0xD0, CHR 0xBF,
      CHR 0xD1, CHR 0x83, CHR 0xD1, CHR 0x81, CHR 0xD0, CHR 0xBA, CHR 0x20, CHR 0xD1,
      CHR 0x82, CHR 0xD0, CHR 0xBE, CHR 0xD0, CHR 0xB2, CHR 0xD0, CHR 0xB0, CHR 0xD1,
      CHR 0x80, CHR 0xD0, CHR 0xB0]"

definition exhausted_middle :: string where
  \<comment> \<open>the text between \<open>{max_retries}\<close> and the marker in the message of line 527\<close>
  "exhausted_middle =
     [CHR 0x20, CHR 0xD0, CHR 0xBF, CHR 0xD0, CHR 0xBE, CHR 0xD0, CHR 0xBF, CHR 0xD1,
      CHR 0x8B, CHR 0xD1, CHR 0x82, CHR 0xD0, CHR 0xBE, CHR 0xD0, CHR 0xBA, CHR 0x2E,
      CHR 0x20]"

definition error_prefix :: string where
  \<comment> \<open>the text before \<open>{error_message}\<close> in the message of line 532\<close>
  "error_prefix =
     [CHR 0xD0, CHR 0x9E, CHR 0xD1, CHR 0x88, CHR 0xD0, CHR 0xB8, CHR 0xD0, CHR 0xB1,
      CHR 0xD0, CHR 0xBA, CHR 0xD0, CHR 0xB0, CHR 0x20, CHR 0xD0, CHR 0xBF, CHR 0xD1,
      CHR 0x80, CHR 0xD0, CHR 0xB8, CHR 0x20, CHR 0xD0, CHR 0xBF, CHR 0xD1, CHR 0x80,
      CHR 0xD0, CHR 0xBE, CHR 0xD0, CHR 0xB4, CHR 0xD0, CHR 0xB2, CHR 0xD0, CHR 0xB8,
      CHR 0xD0, CHR 0xB6, CHR 0xD0, CHR 0xB5, CHR 0xD0, CHR 0xBD, CHR 0xD0, CHR 0xB8,
      CHR 0xD0, CHR 0xB8, CHR 0x3A, CHR 0x20]"

definition unknown_error_msg :: string where
  \<comment> \<open>the message of the return after the loop (line 534)\<close>
  "unknown_error_msg =
     [CHR 0xD0, CHR 0x9D, CHR 0xD0, CHR 0xB5, CHR 0xD0, CHR 0xB8, CHR 0xD0, CHR 0xB7,
      CHR 0xD0, CHR 0xB2, CHR 0xD0, CHR 0xB5, CHR 0xD1, CHR 0x81, CHR 0xD1, CHR 0x82,
      CHR 0xD0, CHR 0xBD, CHR 0xD0, CHR 0xB0, CHR 0xD1, CHR 0x8F, CHR 0x20, CHR 0xD0,
      CHR 0xBE, CHR 0xD1, CHR 0x88, CHR 0xD0, CHR 0xB8, CHR 0xD0, CHR 0xB1, CHR 0xD0,
      CHR 0xBA, CHR 0xD0, CHR 0xB0]"

definition promoted_msg :: "string \<Rightarrow> string" where
  "promoted_msg status_name = promoted_prefix @ status_name"

definition exhausted_msg :: "int \<Rightarrow> string" where
  "exhausted_msg max_retries =
     exhausted_prefix @ str_int max_retries @ exhausted_middle @ skip_marker @ ''.''"

definition error_msg :: "string \<Rightarrow> string" where
  "error_msg error_message = error_prefix @ error_message"

text \<open>
  What \<open>str.strip\<close> and \<open>str.lower\<close> do on text that is ASCII: the white space of ASCII
  is removed at both ends, the capitals of ASCII are mapped. On other text Python's
  functions follow Unicode; they are parameters of the environment below, and these two
  definitions only serve as their values in the example inputs.
\<close>

definition is_space :: "char \<Rightarrow> bool" where
  "is_space c = (of_char c \<in> {9, 10, 11, 12, 13, 28, 29, 30, 31, 32 :: nat})"

definition ascii_strip :: "string \<Rightarrow> string" where
  "ascii_strip s = rev (dropWhile is_space (rev (dropWhile is_space s)))"

definition lower_char :: "char \<Rightarrow> char" where
  "lower_char c =
     (let n = of_char c :: nat in if 65 \<le> n \<and> n \<le> 90 then char_of (n + 32) else c)"

definition ascii_lower :: "string \<Rightarrow> string" where
  "ascii_lower s = map lower_char s"

section \<open>Data model\<close>

text \<open>
  What a call of the remote client, or a property of \<open>Config\<close>, does: it returns a value
  or raises an exception \<open>e\<close>, of which the program only reads \<open>str(e)\<close>.
\<close>

datatype 'a outcome = Returns 'a | Raises string

text \<open>
  A \<open>datetime\<close>: the reading of its calendar fields in microseconds since the epoch, and
  its offset from UTC in microseconds (\<open>None\<close> for a naive value, \<open>tzinfo is None\<close>).
\<close>

record datetime =
  reading_us :: int
  utcoffset_us :: "int option"

text \<open>The types of \<open>playerokapi.types\<close>, with the fields \<open>main.py\<close> reads.\<close>

datatype priority_types = DEFAULT | PREMIUM

record item_priority_status =
  status_id :: string
  status_type :: priority_types
  status_name :: string

record item_profile =
  item_id :: string
  item_name :: "string option"
  price :: int
  approval_date :: "string option"

record page_info_rec =
  has_next_page :: bool
  end_cursor :: "string option"

record item_profile_list =
  items :: "item_profile list"
  page_info :: page_info_rec

text \<open>
  \<open>Config\<close>, as the values its properties return. A configuration that reaches a cycle
  has passed \<open>_validate_config\<close>, and \<open>print_banner\<close> has read \<open>promo_threshold_sec\<close>; the
  data does not change afterwards, so the properties read in a cycle return. The two
  delay ranges are the pairs of \<open>_delay_between_promos_bounds\<close> and
  \<open>_delay_between_pages_bounds\<close>; \<open>_validate_config\<close> bounds them from below only.
\<close>

record config =
  item_status :: string
  include_names :: "string set"
  exclude_names :: "string set"
  duplicates_limit :: int
  promo_threshold_sec :: int
  delay_between_promos_bounds :: "rat \<times> rat"
  delay_between_pages_bounds :: "rat \<times> rat"

text \<open>
  The environment of a cycle: what the \<open>k\<close>-th call of each remote operation does, what
  the \<open>k\<close>-th reading of the clock and the \<open>k\<close>-th random draw give, and the functions
  of Python's library the cycle calls on its data: the parser \<open>datetime.fromisoformat\<close>
  (\<open>None\<close> where it raises), \<open>str.strip\<close>, \<open>str.lower\<close>, and the rounding of an exact
  number to the float that holds it (\<open>timedelta.total_seconds\<close> returns a float).
  \<open>promote_reply\<close> answers both \<open>publish_item\<close> and \<open>increase_item_priority_status\<close>.
\<close>

record env =
  get_items_reply :: "nat \<Rightarrow> item_profile_list outcome"
  priority_statuses_reply :: "nat \<Rightarrow> item_priority_status list outcome"
  promote_reply :: "nat \<Rightarrow> unit outcome"
  clock_us :: "nat \<Rightarrow> int"
  random_raw :: "nat \<Rightarrow> nat"
  random_unit :: "nat \<Rightarrow> rat"
  fromisoformat :: "string \<Rightarrow> datetime option"
  str_strip :: "string \<Rightarrow> string"
  str_lower :: "string \<Rightarrow> string"
  float_of :: "rat \<Rightarrow> rat"

text \<open>\<open>_normalize_name\<close>: \<open>(name or "").strip().lower()\<close>.\<close>

definition normalize_name :: "env \<Rightarrow> string option \<Rightarrow> string" where
  "normalize_name e name = str_lower e (str_strip e (case name of None \<Rightarrow> [] | Some n \<Rightarrow> n))"

text \<open>
  What the program does to the outside, in order: its remote calls, its sleeps (in
  seconds) and the two prints of the cycle's end. The progress lines are not recorded.
\<close>

datatype event =
    Get_items "string option"
  | Get_item_priority_statuses string
  | Increase_item_priority_status string string
  | Publish_item string string
  | Sleep rat
  | Print_cycle_error string
  | Print_summary nat nat

text \<open>The trace so far, and how many replies, clock readings and draws were used.\<close>

record world =
  trace :: "event list"
  n_get_items :: nat
  n_priority :: nat
  n_promote :: nat
  n_clock :: nat
  n_random :: nat

definition emit :: "event \<Rightarrow> world \<Rightarrow> world" where
  "emit ev w = w\<lparr>trace := trace w @ [ev]\<rparr>"

definition get_now :: "env \<Rightarrow> world \<Rightarrow> datetime \<times> world" where
  \<comment> \<open>\<open>_get_now\<close>: the current time, in UTC\<close>
  "get_now e w =
     (\<lparr>reading_us = clock_us e (n_clock w), utcoffset_us = Some 0\<rparr>,
      w\<lparr>n_clock := Suc (n_clock w)\<rparr>)"

text \<open>
  \<open>random.randint(a, b)\<close> returns an integer \<open>N\<close> with \<open>a \<le> N \<le> b\<close>, and
  \<open>random.uniform(a, b)\<close> returns \<open>a + (b - a) * random()\<close> with \<open>random()\<close> in
  \<open>[0, 1)\<close>. Both are modelled as functions of the raw draw of the environment, so that
  every value of the range is the result of some draw and no other value is.
\<close>

definition randint :: "int \<Rightarrow> int \<Rightarrow> nat \<Rightarrow> int" where
  "randint a b raw = a + int (raw mod nat (b - a + 1))"

definition uniform :: "rat \<Rightarrow> rat \<Rightarrow> rat \<Rightarrow> rat" where
  "uniform a b raw = a + (b - a) * (raw - of_int \<lfloor>raw\<rfloor>)"

text \<open>
  \<open>time.sleep(secs)\<close> turns the seconds into a signed 64-bit number of nanoseconds and
  raises \<open>OverflowError\<close> when that does not fit; otherwise it sleeps. The rounding at the
  very limit is not modelled, and the callers never pass a negative number. The text of
  the exception is that of CPython up to 3.12; nothing reads it but the prints of
  lines 728 and 742.
\<close>

definition sleep_limit :: rat where
  "sleep_limit = 9223372036854775807 / 1000000000"

definition overflow_msg :: string where
  "overflow_msg = ''timestamp too large to convert to C _PyTime_t''"

definition time_sleep :: "rat \<Rightarrow> world \<Rightarrow> string option \<times> world" where
  "time_sleep secs w =
     (if sleep_limit < secs then (Some overflow_msg, w) else (None, emit (Sleep secs) w))"

text \<open>\<open>int(x)\<close> of a float: truncation towards zero.\<close>

definition py_int :: "rat \<Rightarrow> int" where
  "py_int x = (if 0 \<le> x then \<lfloor>x\<rfloor> else \<lceil>x\<rceil>)"

section \<open>RateLimiter\<close>

text \<open>
  \<open>consecutive_errors\<close> starts at 0 and is only ever incremented or reset to 0: a
  natural number.
\<close>

record rate_limiter =
  rl_config :: config
  consecutive_errors :: nat
  last_error_time :: "datetime option"

definition rate_limiter_init :: "config \<Rightarrow> rate_limiter" where
  "rate_limiter_init cfg = \<lparr>rl_config = cfg, consecutive_errors = 0, last_error_time = None\<rparr>"

definition random_delay_between_promos_sec :: "env \<Rightarrow> config \<Rightarrow> world \<Rightarrow> rat \<times> world" where
  "random_delay_between_promos_sec e cfg w =
     (case delay_between_promos_bounds cfg of (dmin, dmax) \<Rightarrow>
        (uniform dmin dmax (random_unit e (n_random w)), w\<lparr>n_random := Suc (n_random w)\<rparr>))"

definition random_delay_between_pages_sec :: "env \<Rightarrow> config \<Rightarrow> world \<Rightarrow> rat \<times> world" where
  "random_delay_between_pages_sec e cfg w =
     (case delay_between_pages_bounds cfg of (pmin, pmax) \<Rightarrow>
        if pmin = 0 \<and> pmax = 0 then (0, w)
        else (uniform pmin pmax (random_unit e (n_random w)), w\<lparr>n_random := Suc (n_random w)\<rparr>))"

text \<open>
  \<open>calculate_wait_time\<close>. The result is a float in Python; for 429 it is the float of an
  integer of at most 120, which is exact.
\<close>

definition calculate_wait_time ::
  "env \<Rightarrow> rate_limiter \<Rightarrow> int option \<Rightarrow> world \<Rightarrow> rat \<times> world" where
  "calculate_wait_time e rl error_code w =
     (if error_code = Some 429 then
        (let base_wait = 5 :: int;
             exponential_wait = base_wait * 2 ^ min (consecutive_errors rl) 5;
             jitter = randint 0 10 (random_raw e (n_random w))
         in (of_int (min (exponential_wait + jitter) 120), w\<lparr>n_random := Suc (n_random w)\<rparr>))
      else random_delay_between_promos_sec e (rl_config rl) w)"

definition on_error :: "env \<Rightarrow> rate_limiter \<times> world \<Rightarrow> rate_limiter \<times> world" where
  "on_error e = (\<lambda>(rl, w).
     (case get_now e w of (t, w') \<Rightarrow>
        (rl\<lparr>consecutive_errors := consecutive_errors rl + 1, last_error_time := Some t\<rparr>, w')))"

definition on_success :: "rate_limiter \<Rightarrow> rate_limiter" where
  "on_success rl = rl\<lparr>consecutive_errors := 0, last_error_time := None\<rparr>"

text \<open>
  The wait after a throttling error, shown as a countdown:
  \<open>for remaining in range(remaining_int, 0, -5): time.sleep(min(5, remaining))\<close>. Each
  of these sleeps lasts at most 5 seconds, which \<open>time.sleep\<close> accepts.
\<close>

function countdown :: "int \<Rightarrow> event list" where
  "countdown remaining =
     (if remaining \<le> 0 then []
      else Sleep (of_int (min 5 remaining)) # countdown (remaining - 5))"
  by pat_completeness auto
termination
  by (relation "measure nat") auto

declare countdown.simps [simp del]

definition countdown_sleep :: "rat \<Rightarrow> world \<Rightarrow> world" where
  "countdown_sleep wait_time w = w\<lparr>trace := trace w @ countdown (py_int wait_time)\<rparr>"

text \<open>\<open>range(n)\<close>: empty when \<open>n \<le> 0\<close>.\<close>

definition py_range :: "int \<Rightarrow> nat list" where
  "py_range n = [0..<nat n]"

section \<open>promote_product_with_retry\<close>

definition promote_call :: "item_profile \<Rightarrow> item_priority_status \<Rightarrow> bool \<Rightarrow> event" where
  "promote_call product premium_priority is_published =
     (if is_published
      then Increase_item_priority_status (item_id product) (status_id premium_priority)
      else Publish_item (item_id product) (status_id premium_priority))"

text \<open>
  The body of \<open>for attempt in range(max_retries)\<close>, over the attempts that are left. The
  rate limiter is an object the caller shares: it is passed in and returned with the
  world.
\<close>

fun promote_attempts ::
  "env \<Rightarrow> item_profile \<Rightarrow> item_priority_status \<Rightarrow> bool \<Rightarrow> int \<Rightarrow> nat list \<Rightarrow>
   rate_limiter \<times> world \<Rightarrow> (bool \<times> string) \<times> rate_limiter \<times> world" where
  "promote_attempts e product premium_priority is_published max_retries [] (rl, w) =
     ((False, unknown_error_msg), rl, w)"
| "promote_attempts e product premium_priority is_published max_retries (attempt # rest) (rl, w) =
     (let w1 = (emit (promote_call product premium_priority is_published) w)
                 \<lparr>n_promote := Suc (n_promote w)\<rparr>
      in case promote_reply e (n_promote w) of
           Returns u \<Rightarrow> ((True, promoted_msg (status_name premium_priority)), on_success rl, w1)
         | Raises error_message \<Rightarrow>
             if contains ''429'' error_message \<or> contains ''TOO_MANY_REQUESTS'' error_message
             then
               (case on_error e (rl, w1) of (rl2, w2) \<Rightarrow>
                 (case calculate_wait_time e rl2 (Some 429) w2 of (wait_time, w3) \<Rightarrow>
                    if int attempt < max_retries - 1
                    then promote_attempts e product premium_priority is_published max_retries
                           rest (rl2, countdown_sleep wait_time w3)
                    else ((False, exhausted_msg max_retries), rl2, w3)))
             else ((False, error_msg error_message), rl, w1))"

definition promote_product_with_retry ::
  "env \<Rightarrow> item_profile \<Rightarrow> item_priority_status \<Rightarrow> bool \<Rightarrow> rate_limiter \<times> world \<Rightarrow> int \<Rightarrow>
   (bool \<times> string) \<times> rate_limiter \<times> world" where
  "promote_product_with_retry e product premium_priority is_published rlw max_retries =
     promote_attempts e product premium_priority is_published max_retries
       (py_range max_retries) rlw"

section \<open>check_and_update_products\<close>

text \<open>The local variables of a cycle, its rate limiter and the world.\<close>

record cycle =
  cursor :: "string option"
  total_checked :: nat
  total_promoted :: nat
  total_skipped :: nat
  total_errors :: nat
  promoted_by_name :: "string \<Rightarrow> nat"
  rate_limiter :: rate_limiter
  world :: world

definition world_init :: world where
  "world_init = \<lparr>trace = [], n_get_items = 0, n_priority = 0, n_promote = 0, n_clock = 0,
     n_random = 0\<rparr>"

definition cycle_init :: "config \<Rightarrow> world \<Rightarrow> cycle" where
  "cycle_init cfg w =
     \<lparr>cursor = None, total_checked = 0, total_promoted = 0, total_skipped = 0,
      total_errors = 0, promoted_by_name = (\<lambda>_. 0), rate_limiter = rate_limiter_init cfg,
      world = w\<rparr>"

definition page_max_retries :: int where
  "page_max_retries = 5"

definition print_summary :: "cycle \<Rightarrow> cycle" where
  "print_summary st =
     st\<lparr>world := emit (Print_summary (total_checked st) (total_promoted st)) (world st)\<rparr>"

text \<open>
  The page loop \<open>for attempt in range(page_max_retries)\<close>. It ends by \<open>break\<close> with the
  page, by a \<open>return\<close> out of the whole function, or by running out of attempts.
\<close>

datatype fetch_flow = Break item_profile_list | Return_from_cycle | Loop_ended

fun fetch_attempts :: "env \<Rightarrow> int \<Rightarrow> nat list \<Rightarrow> cycle \<Rightarrow> fetch_flow \<times> cycle" where
  "fetch_attempts e max_retries [] st = (Loop_ended, st)"
| "fetch_attempts e max_retries (attempt # rest) st =
     (let w = world st;
          w1 = (emit (Get_items (cursor st)) w)\<lparr>n_get_items := Suc (n_get_items w)\<rparr>
      in case get_items_reply e (n_get_items w) of
           Returns item_list \<Rightarrow>
             (Break item_list, st\<lparr>rate_limiter := on_success (rate_limiter st), world := w1\<rparr>)
         | Raises error_message \<Rightarrow>
             if contains ''429'' error_message \<or> contains ''TOO_MANY_REQUESTS'' error_message
                \<or> contains ''Too many attempts'' error_message
             then
               (case on_error e (rate_limiter st, w1) of (rl2, w2) \<Rightarrow>
                 (case calculate_wait_time e rl2 (Some 429) w2 of (wait_time, w3) \<Rightarrow>
                    if int attempt < max_retries - 1
                    then fetch_attempts e max_retries rest
                           (st\<lparr>rate_limiter := rl2, world := countdown_sleep wait_time w3\<rparr>)
                    else (Return_from_cycle,
                          print_summary
                            (st\<lparr>total_errors := total_errors st + 1, rate_limiter := rl2,
                                world := w3\<rparr>))))
             else (Return_from_cycle,
                   print_summary (st\<lparr>total_errors := total_errors st + 1, world := w1\<rparr>)))"

text \<open>The approval date of a listing: \<open>datetime.fromisoformat(product.approval_date)\<close>.\<close>

definition parse_approval_date :: "env \<Rightarrow> item_profile \<Rightarrow> datetime option" where
  "parse_approval_date e product =
     (case approval_date product of None \<Rightarrow> None | Some s \<Rightarrow> fromisoformat e s)"

definition localize_utc :: "datetime \<Rightarrow> datetime" where
  "localize_utc dt = dt\<lparr>utcoffset_us := Some 0\<rparr>"

definition instant_us :: "datetime \<Rightarrow> int" where
  "instant_us dt = reading_us dt - (case utcoffset_us dt of None \<Rightarrow> 0 | Some off \<Rightarrow> off)"

text \<open>\<open>(a - b).total_seconds()\<close> for two aware values: the float of the exact seconds.\<close>

definition total_seconds_between :: "env \<Rightarrow> datetime \<Rightarrow> datetime \<Rightarrow> rat" where
  "total_seconds_between e a b = float_of e (of_int (instant_us a - instant_us b) / 1000000)"

text \<open>
  Step 4 of the loop body, the \<open>try\<close> of lines 684 to 729: the priority statuses, the
  premium one, the promotion, the pause after a success. An exception of the lookup or
  of the pause (\<open>time.sleep\<close>, line 715) is caught by the handler of line 727, which adds
  one to \<open>total_errors\<close>; at the pause the listing has been counted as promoted already.
\<close>

definition promote_step :: "env \<Rightarrow> config \<Rightarrow> item_profile \<Rightarrow> string \<Rightarrow> cycle \<Rightarrow> cycle" where
  "promote_step e cfg product norm_name st =
     (let w = world st;
          w1 = (emit (Get_item_priority_statuses (item_id product)) w)
                 \<lparr>n_priority := Suc (n_priority w)\<rparr>
      in case priority_statuses_reply e (n_priority w) of
           Raises err \<Rightarrow> st\<lparr>total_errors := total_errors st + 1, world := w1\<rparr>
         | Returns priority_statuses \<Rightarrow>
            (case find (\<lambda>status. status_type status = PREMIUM) priority_statuses of
               None \<Rightarrow> st\<lparr>total_skipped := total_skipped st + 1, world := w1\<rparr>
             | Some premium_priority \<Rightarrow>
                (case promote_product_with_retry e product premium_priority
                        (item_status cfg = ''APPROVED'') (rate_limiter st, w1) 3 of
                   ((success, message), rl2, w2) \<Rightarrow>
                     if success then
                       (case calculate_wait_time e rl2 None w2 of (wait_time, w3) \<Rightarrow>
                          if wait_time > 0 then
                            (case time_sleep wait_time w3 of
                               (None, w4) \<Rightarrow>
                                 st\<lparr>total_promoted := total_promoted st + 1,
                                    promoted_by_name := (promoted_by_name st)
                                      (norm_name := promoted_by_name st norm_name + 1),
                                    rate_limiter := rl2, world := w4\<rparr>
                             | (Some err, w4) \<Rightarrow>
                                 st\<lparr>total_promoted := total_promoted st + 1,
                                    promoted_by_name := (promoted_by_name st)
                                      (norm_name := promoted_by_name st norm_name + 1),
                                    total_errors := total_errors st + 1,
                                    rate_limiter := rl2, world := w4\<rparr>)
                          else
                            st\<lparr>total_promoted := total_promoted st + 1,
                               promoted_by_name := (promoted_by_name st)
                                 (norm_name := promoted_by_name st norm_name + 1),
                               rate_limiter := rl2, world := w3\<rparr>)
                     else if contains skip_marker message
                     then st\<lparr>total_skipped := total_skipped st + 1, rate_limiter := rl2,
                             world := w2\<rparr>
                     else st\<lparr>total_errors := total_errors st + 1, rate_limiter := rl2,
                             world := w2\<rparr>)))"

text \<open>
  The body of \<open>for product in item_list.items\<close>. Outside the handlers of the body only
  the name, the clock and the configuration are read, which do not raise.
\<close>

definition process_item :: "env \<Rightarrow> config \<Rightarrow> item_profile \<Rightarrow> cycle \<Rightarrow> cycle" where
  "process_item e cfg product st0 =
     (let st = st0\<lparr>total_checked := total_checked st0 + 1\<rparr>;
          norm_name = normalize_name e (item_name product)
      in if include_names cfg \<noteq> {} \<and> norm_name \<notin> include_names cfg
         then st\<lparr>total_skipped := total_skipped st + 1\<rparr>
         else if include_names cfg = {} \<and> exclude_names cfg \<noteq> {}
                 \<and> norm_name \<in> exclude_names cfg
         then st\<lparr>total_skipped := total_skipped st + 1\<rparr>
         else
           (case parse_approval_date e product of
              None \<Rightarrow> st\<lparr>total_skipped := total_skipped st + 1\<rparr>
            | Some parsed \<Rightarrow>
               (let approval = (if utcoffset_us parsed = None then localize_utc parsed else parsed)
                in case get_now e (world st) of (now, w1) \<Rightarrow>
                  (let times_passed_sec = total_seconds_between e now approval;
                       st1 = st\<lparr>world := w1\<rparr>
                   in if times_passed_sec \<le> of_int (promo_threshold_sec cfg) then st1
                      else if duplicates_limit cfg \<ge> 0
                              \<and> int (promoted_by_name st1 norm_name) \<ge> duplicates_limit cfg
                      then st1\<lparr>total_skipped := total_skipped st1 + 1\<rparr>
                      else promote_step e cfg product norm_name st1))))"

fun process_items :: "env \<Rightarrow> config \<Rightarrow> item_profile list \<Rightarrow> cycle \<Rightarrow> cycle" where
  "process_items e cfg [] st = st"
| "process_items e cfg (product # rest) st =
     process_items e cfg rest (process_item e cfg product st)"

text \<open>
  The pause between two pages (lines 735 to 737). Its \<open>time.sleep\<close> stands outside every
  local handler: an exception of it leaves the loop.
\<close>

definition page_pause :: "env \<Rightarrow> config \<Rightarrow> cycle \<Rightarrow> string option \<times> cycle" where
  "page_pause e cfg st =
     (case random_delay_between_pages_sec e cfg (world st) of (wait_time, w) \<Rightarrow>
        if wait_time > 0
        then (case time_sleep wait_time w of (exn, w') \<Rightarrow> (exn, st\<lparr>world := w'\<rparr>))
        else (None, st\<lparr>world := w\<rparr>))"

text \<open>
  How a cycle ends: by \<open>break\<close> on a page without successor, by a \<open>return\<close> after a
  failed page, or in the handler of line 741 with the exception it caught.
\<close>

datatype ending = No_next_page | Fetch_failed | Exception_caught string

text \<open>
  The \<open>while True\<close> over the pages, inside the \<open>try\<close>. The loop runs for as long as the
  remote side announces a next page, so it is given fuel: one unit for each page, and
  \<open>None\<close> when the fuel is used up.
\<close>

fun cycle_pages :: "nat \<Rightarrow> env \<Rightarrow> config \<Rightarrow> cycle \<Rightarrow> (ending \<times> cycle) option" where
  "cycle_pages 0 e cfg st = None"
| "cycle_pages (Suc fuel) e cfg st =
     (case fetch_attempts e page_max_retries (py_range page_max_retries) st of
        (Return_from_cycle, st1) \<Rightarrow> Some (Fetch_failed, st1)
      | (Loop_ended, st1) \<Rightarrow>
          Some (Fetch_failed, print_summary (st1\<lparr>total_errors := total_errors st1 + 1\<rparr>))
      | (Break item_list, st1) \<Rightarrow>
          (let st2 = process_items e cfg (items item_list) st1
           in if \<not> has_next_page (page_info item_list) then Some (No_next_page, st2)
              else
                (case page_pause e cfg st2 of
                   (Some err, st3) \<Rightarrow> Some (Exception_caught err, st3)
                 | (None, st3) \<Rightarrow>
                     cycle_pages fuel e cfg
                       (st3\<lparr>cursor := end_cursor (page_info item_list)\<rparr>))))"

text \<open>
  The whole function: the loop, the handler \<open>except Exception as e: print(...)\<close> and the
  last print. A \<open>return\<close> inside the loop has printed its summary already.
\<close>

definition check_and_update_products ::
  "nat \<Rightarrow> env \<Rightarrow> config \<Rightarrow> world \<Rightarrow> (ending \<times> cycle) option" where
  "check_and_update_products fuel e cfg w =
     (case cycle_pages fuel e cfg (cycle_init cfg w) of
        None \<Rightarrow> None
      | Some (Fetch_failed, st) \<Rightarrow> Some (Fetch_failed, st)
      | Some (No_next_page, st) \<Rightarrow> Some (No_next_page, print_summary st)
      | Some (Exception_caught err, st) \<Rightarrow>
          Some (Exception_caught err,
                print_summary (st\<lparr>world := emit (Print_cycle_error err) (world st)\<rparr>)))"

section \<open>The formulas of the specification\<close>

text \<open>
  The throttled wait as the specification writes it, for a consecutive-error count and a
  jitter: \<open>min(base * 2^min(consecutiveErrors, 5) + jitter, capSeconds)\<close> with base 5 and
  cap 120.
\<close>

definition spec_throttled_wait :: "nat \<Rightarrow> nat \<Rightarrow> rat" where
  "spec_throttled_wait n jitter = of_int (min (5 * 2 ^ min n 5 + int jitter) 120)"

text \<open>
  The elapsed time as the specification writes it, in seconds, for the clock in
  microseconds and an approval timestamp: \<open>elapsed = now - approval timestamp\<close>, where a
  timestamp without timezone information is treated as UTC and one with an offset
  stands for the instant its reading minus the offset.
\<close>

definition spec_elapsed_sec :: "int \<Rightarrow> int \<Rightarrow> int option \<Rightarrow> rat" where
  "spec_elapsed_sec now_us approval_reading_us approval_offset_us =
     (case approval_offset_us of
        None \<Rightarrow> of_int (now_us - approval_reading_us) / 1000000
      | Some off \<Rightarrow> of_int (now_us - (approval_reading_us - off)) / 1000000)"

section \<open>Notions used in the statements\<close>

text \<open>The remote promotion calls among some events.\<close>

definition is_promote_call :: "event \<Rightarrow> bool" where
  "is_promote_call ev =
     (case ev of Increase_item_priority_status i p \<Rightarrow> True | Publish_item i p \<Rightarrow> True
      | _ \<Rightarrow> False)"

definition promote_calls :: "event list \<Rightarrow> nat" where
  "promote_calls evs = length (filter is_promote_call evs)"

text \<open>
  The replies \<open>promote_product_with_retry\<close> takes for throttling (line 505), and the two
  lines both retry loops run after one: \<open>rate_limiter.on_error()\<close> and
  \<open>wait_time = rate_limiter.calculate_wait_time(429)\<close>.
\<close>

definition promote_throttled :: "unit outcome \<Rightarrow> bool" where
  "promote_throttled r =
     (case r of Returns u \<Rightarrow> False
      | Raises m \<Rightarrow> contains ''429'' m \<or> contains ''TOO_MANY_REQUESTS'' m)"

definition backoff :: "env \<Rightarrow> rate_limiter \<times> world \<Rightarrow> rat \<times> rate_limiter \<times> world" where
  "backoff e rlw =
     (case on_error e rlw of (rl2, w2) \<Rightarrow>
        (case calculate_wait_time e rl2 (Some 429) w2 of (wait_time, w3) \<Rightarrow>
           (wait_time, rl2, w3)))"

text \<open>
  The results of the three \<open>return\<close> statements inside the loop of
  \<open>promote_product_with_retry\<close>: success, exhausted retries, another error.
\<close>

definition returned_in_loop :: "int \<Rightarrow> string \<Rightarrow> bool \<times> string \<Rightarrow> bool" where
  "returned_in_loop max_retries status res =
     (res = (True, promoted_msg status) \<or> res = (False, exhausted_msg max_retries)
      \<or> (\<not> fst res \<and> startswith (snd res) error_prefix))"

text \<open>
  The replies the page loop takes for throttling (lines 565 to 569), and the replies it
  takes for another error.
\<close>

definition fetch_throttled :: "item_profile_list outcome \<Rightarrow> bool" where
  "fetch_throttled r =
     (case r of Returns page \<Rightarrow> False
      | Raises m \<Rightarrow> contains ''429'' m \<or> contains ''TOO_MANY_REQUESTS'' m
                     \<or> contains ''Too many attempts'' m)"

definition fetch_other_error :: "item_profile_list outcome \<Rightarrow> bool" where
  "fetch_other_error r =
     (case r of Returns page \<Rightarrow> False
      | Raises m \<Rightarrow> \<not> (contains ''429'' m \<or> contains ''TOO_MANY_REQUESTS'' m
                     \<or> contains ''Too many attempts'' m))"

text \<open>
  What \<open>k\<close> throttled attempts at a page leave in the trace, for the cursor of the page,
  the consecutive errors before the first of them and the number of the first random
  draw: each attempt is a call of \<open>get_items\<close> followed by the countdown of its wait.
\<close>

fun fetch_retry_events :: "env \<Rightarrow> string option \<Rightarrow> nat \<Rightarrow> nat \<Rightarrow> nat \<Rightarrow> event list" where
  "fetch_retry_events e c errs draw 0 = []"
| "fetch_retry_events e c errs draw (Suc k) =
     Get_items c
     # countdown (py_int (spec_throttled_wait (Suc errs) (random_raw e draw mod 11)))
     @ fetch_retry_events e c (Suc errs) (Suc draw) k"

text \<open>
  The sum of the three outcome counters, and the number of listings on the pages that
  the calls \<open>a\<close> to \<open>b - 1\<close> of \<open>get_items\<close> returned.
\<close>

definition outcomes :: "cycle \<Rightarrow> nat" where
  "outcomes st = total_promoted st + total_skipped st + total_errors st"

definition listings_fetched :: "env \<Rightarrow> nat \<Rightarrow> nat \<Rightarrow> nat" where
  "listings_fetched e a b =
     (\<Sum>k = a..<b. case get_items_reply e k of Returns page \<Rightarrow> length (items page)
                     | Raises m \<Rightarrow> 0)"

text \<open>
  The name filter of lines 629 to 640, the value of \<open>times_passed_sec\<close> (line 656) for a
  parsed approval date, and a reading of the clock.
\<close>

definition passes_name_filter :: "env \<Rightarrow> config \<Rightarrow> item_profile \<Rightarrow> bool" where
  "passes_name_filter e cfg product =
     (let norm_name = normalize_name e (item_name product)
      in \<not> (include_names cfg \<noteq> {} \<and> norm_name \<notin> include_names cfg)
         \<and> \<not> (include_names cfg = {} \<and> exclude_names cfg \<noteq> {}
                \<and> norm_name \<in> exclude_names cfg))"

definition times_passed_sec :: "env \<Rightarrow> world \<Rightarrow> datetime \<Rightarrow> rat" where
  "times_passed_sec e w parsed =
     total_seconds_between e (fst (get_now e w))
       (if utcoffset_us parsed = None then localize_utc parsed else parsed)"

definition tick :: "world \<Rightarrow> world" where
  "tick w = w\<lparr>n_clock := Suc (n_clock w)\<rparr>"

text \<open>
  Every pause between two promotions is one \<open>time.sleep\<close> accepts: both ends of the
  configured range are. The rate limiter holds the configuration it draws the pause
  from.
\<close>

definition promo_delay_ok :: "config \<Rightarrow> bool" where
  "promo_delay_ok cfg =
     (fst (delay_between_promos_bounds cfg) \<le> sleep_limit
      \<and> snd (delay_between_promos_bounds cfg) \<le> sleep_limit)"

text \<open>
  The state in which a turn of the page loop starts, \<open>n\<close> turns after a turn that started
  in \<open>st\<close>: each of the \<open>n\<close> turns fetched its page, which announced a next page, and
  paused without an exception. \<open>None\<close> when the loop ended before.
\<close>

fun after_turns :: "nat \<Rightarrow> env \<Rightarrow> config \<Rightarrow> cycle \<Rightarrow> cycle option" where
  "after_turns 0 e cfg st = Some st"
| "after_turns (Suc n) e cfg st =
     (case fetch_attempts e page_max_retries (py_range page_max_retries) st of
        (Break item_list, st1) \<Rightarrow>
          if has_next_page (page_info item_list)
          then (case page_pause e cfg (process_items e cfg (items item_list) st1) of
                  (None, st3) \<Rightarrow>
                    after_turns n e cfg (st3\<lparr>cursor := end_cursor (page_info item_list)\<rparr>)
                | (Some err, st3) \<Rightarrow> None)
          else None
      | (Return_from_cycle, st1) \<Rightarrow> None
      | (Loop_ended, st1) \<Rightarrow> None)"

text \<open>
  What the page loop, the promotion step, a listing, the listings of a page and the pages
  of a cycle leave unchanged, and by how much they move the counters.
\<close>

definition fetch_post :: "env \<Rightarrow> cycle \<Rightarrow> fetch_flow \<Rightarrow> cycle \<Rightarrow> bool" where
  "fetch_post e st flow st' =
     (cursor st' = cursor st \<and> total_checked st' = total_checked st
      \<and> total_promoted st' = total_promoted st \<and> total_skipped st' = total_skipped st
      \<and> promoted_by_name st' = promoted_by_name st
      \<and> rl_config (rate_limiter st') = rl_config (rate_limiter st)
      \<and> n_get_items (world st) \<le> n_get_items (world st')
      \<and> (case flow of
            Break page \<Rightarrow> total_errors st' = total_errors st
               \<and> n_get_items (world st) < n_get_items (world st')
               \<and> get_items_reply e (n_get_items (world st') - 1) = Returns page
               \<and> listings_fetched e (n_get_items (world st)) (n_get_items (world st'))
                    = length (items page)
          | Return_from_cycle \<Rightarrow> total_errors st' = total_errors st + 1
               \<and> listings_fetched e (n_get_items (world st)) (n_get_items (world st')) = 0
               \<and> trace (world st') \<noteq> []
               \<and> last (trace (world st')) = Print_summary (total_checked st) (total_promoted st)
          | Loop_ended \<Rightarrow> total_errors st' = total_errors st
               \<and> listings_fetched e (n_get_items (world st)) (n_get_items (world st')) = 0))"

definition promote_step_post :: "string \<Rightarrow> cycle \<Rightarrow> cycle \<Rightarrow> bool" where
  "promote_step_post nm st st' =
     (cursor st' = cursor st \<and> total_checked st' = total_checked st
      \<and> rl_config (rate_limiter st') = rl_config (rate_limiter st)
      \<and> outcomes st < outcomes st'
      \<and> (promo_delay_ok (rl_config (rate_limiter st)) \<longrightarrow> outcomes st' = outcomes st + 1)
      \<and> n_get_items (world st') = n_get_items (world st)
      \<and> (promoted_by_name st' = promoted_by_name st \<and> total_promoted st' = total_promoted st
         \<or> promoted_by_name st' = (promoted_by_name st)(nm := promoted_by_name st nm + 1)
           \<and> total_promoted st' = total_promoted st + 1))"

definition item_post :: "config \<Rightarrow> cycle \<Rightarrow> cycle \<Rightarrow> bool" where
  "item_post cfg st st' =
     (cursor st' = cursor st \<and> total_checked st' = total_checked st + 1
      \<and> rl_config (rate_limiter st') = rl_config (rate_limiter st)
      \<and> outcomes st \<le> outcomes st'
      \<and> (promo_delay_ok (rl_config (rate_limiter st)) \<longrightarrow> outcomes st' \<le> outcomes st + 1)
      \<and> n_get_items (world st') = n_get_items (world st)
      \<and> (0 \<le> duplicates_limit cfg
           \<and> (\<forall>name. int (promoted_by_name st name) \<le> duplicates_limit cfg)
         \<longrightarrow> (\<forall>name. int (promoted_by_name st' name) \<le> duplicates_limit cfg)))"

definition items_post :: "config \<Rightarrow> nat \<Rightarrow> cycle \<Rightarrow> cycle \<Rightarrow> bool" where
  "items_post cfg n st st' =
     (cursor st' = cursor st \<and> total_checked st' = total_checked st + n
      \<and> rl_config (rate_limiter st') = rl_config (rate_limiter st)
      \<and> outcomes st \<le> outcomes st'
      \<and> (promo_delay_ok (rl_config (rate_limiter st)) \<longrightarrow> outcomes st' \<le> outcomes st + n)
      \<and> n_get_items (world st') = n_get_items (world st)
      \<and> (0 \<le> duplicates_limit cfg
           \<and> (\<forall>name. int (promoted_by_name st name) \<le> duplicates_limit cfg)
         \<longrightarrow> (\<forall>name. int (promoted_by_name st' name) \<le> duplicates_limit cfg)))"

definition cycle_post :: "env \<Rightarrow> config \<Rightarrow> cycle \<Rightarrow> ending \<Rightarrow> cycle \<Rightarrow> bool" where
  "cycle_post e cfg st ending st' =
     (total_checked st \<le> total_checked st'
      \<and> rl_config (rate_limiter st') = rl_config (rate_limiter st)
      \<and> (promo_delay_ok (rl_config (rate_limiter st)) \<longrightarrow>
            outcomes st' + total_checked st
            \<le> outcomes st + total_checked st' + (if ending = Fetch_failed then 1 else 0))
      \<and> n_get_items (world st) \<le> n_get_items (world st')
      \<and> total_checked st'
         = total_checked st
           + listings_fetched e (n_get_items (world st)) (n_get_items (world st'))
      \<and> (0 \<le> duplicates_limit cfg
           \<and> (\<forall>name. int (promoted_by_name st name) \<le> duplicates_limit cfg)
         \<longrightarrow> (\<forall>name. int (promoted_by_name st' name) \<le> duplicates_limit cfg))
      \<and> (ending = Fetch_failed \<longrightarrow>
            trace (world st') \<noteq> []
            \<and> last (trace (world st')) = Print_summary (total_checked st') (total_promoted st')))"

section \<open>Example inputs\<close>

text \<open>
  A configuration with the defaults of \<open>_create_default_config\<close> but a duplicate limit
  of 1, and an environment where every remote call succeeds: one page of two listings
  whose names differ in case and white space only, approved at the epoch, read at a
  clock of 10000 seconds. Its text functions are those of ASCII and its floats are
  exact, which is what Python computes on the values of these examples.
\<close>

definition example_config :: config where
  "example_config =
     \<lparr>item_status = ''APPROVED'', include_names = {}, exclude_names = {},
      duplicates_limit = 1, promo_threshold_sec = 1800,
      delay_between_promos_bounds = (1, 2), delay_between_pages_bounds = (0, 0)\<rparr>"

definition gem :: "string \<Rightarrow> item_profile" where
  "gem i = \<lparr>item_id = i, item_name = Some ''Gem x100'', price = 50,
            approval_date = Some ''1970-01-01T00:00:00''\<rparr>"

definition example_page :: item_profile_list where
  "example_page =
     \<lparr>items = [gem ''a'', (gem ''b'')\<lparr>item_name := Some '' GEM X100 ''\<rparr>],
      page_info = \<lparr>has_next_page = False, end_cursor = None\<rparr>\<rparr>"

definition example_env :: env where
  "example_env =
     \<lparr>get_items_reply = (\<lambda>k. Returns example_page),
      priority_statuses_reply = (\<lambda>k. Returns
         [\<lparr>status_id = ''p0'', status_type = DEFAULT, status_name = ''Default''\<rparr>,
          \<lparr>status_id = ''p1'', status_type = PREMIUM, status_name = ''Premium''\<rparr>]),
      promote_reply = (\<lambda>k. Returns ()),
      clock_us = (\<lambda>k. 10000000000),
      random_raw = (\<lambda>k. 10),
      random_unit = (\<lambda>k. 1 / 2),
      fromisoformat = (\<lambda>s.
         if s = ''1970-01-01T00:00:00'' then Some \<lparr>reading_us = 0, utcoffset_us = None\<rparr>
         else if s = ''1970-01-01T02:16:40''
         then Some \<lparr>reading_us = 8200000000, utcoffset_us = None\<rparr>
         else if s = ''1969-12-31T23:36:40-03:00''
         then Some \<lparr>reading_us = - 1400000000, utcoffset_us = Some (- 10800000000)\<rparr>
         else None),
      str_strip = ascii_strip,
      str_lower = ascii_lower,
      float_of = (\<lambda>x. x)\<rparr>"

definition premium_status :: item_priority_status where
  "premium_status = \<lparr>status_id = ''p1'', status_type = PREMIUM, status_name = ''Premium''\<rparr>"

text \<open>
  A first page that announces a successor, and an environment where every fetch after
  the first is throttled.
\<close>

definition first_page :: item_profile_list where
  "first_page = example_page\<lparr>page_info := \<lparr>has_next_page = True, end_cursor = Some ''c1''\<rparr>\<rparr>"

definition throttled_second_page_env :: env where
  "throttled_second_page_env =
     example_env\<lparr>get_items_reply := (\<lambda>k. if k = 0 then Returns first_page
                                          else Raises ''429 Too Many Requests''),
                 random_raw := (\<lambda>k. 0)\<rparr>"

text \<open>
  A configuration whose pause between pages is 1e10 seconds, which \<open>_validate_config\<close>
  accepts (it asks for \<open>0 \<le> min \<le> max\<close>), one whose pause between promotions is 1e10
  seconds (it asks for \<open>0 < min \<le> max\<close>), and an environment whose pages all announce a
  successor.
\<close>

definition long_page_pause_config :: config where
  "long_page_pause_config =
     example_config\<lparr>delay_between_pages_bounds := (10000000000, 10000000000)\<rparr>"

definition long_promo_pause_config :: config where
  "long_promo_pause_config =
     example_config\<lparr>delay_between_promos_bounds := (10000000000, 10000000000)\<rparr>"

definition paged_env :: env where
  "paged_env = example_env\<lparr>get_items_reply := (\<lambda>k. Returns first_page)\<rparr>"

section \<open>Properties\<close>

subsection \<open>The throttled wait\<close>

lemma randint_0_10: "randint 0 10 raw = int (raw mod 11)"
  by (simp add: randint_def)

lemma calculate_wait_time_429_eq:
  "fst (calculate_wait_time e rl (Some 429) w) =
     spec_throttled_wait (consecutive_errors rl) (random_raw e (n_random w) mod 11)"
  by (simp add: calculate_wait_time_def spec_throttled_wait_def randint_0_10 Let_def)

lemma spec_throttled_wait_le_120: "spec_throttled_wait n j \<le> 120"
proof -
  have "min (5 * 2 ^ min n 5 + int j) 120 \<le> (120::int)" by simp
  then have "(of_int (min (5 * 2 ^ min n 5 + int j) 120) :: rat) \<le> of_int 120"
    by (simp only: of_int_le_iff)
  then show ?thesis by (simp add: spec_throttled_wait_def)
qed

lemma spec_throttled_wait_mono:
  assumes "n1 \<le> n2"
  shows "spec_throttled_wait n1 j \<le> spec_throttled_wait n2 j"
proof -
  have "min n1 5 \<le> min n2 5" using assms by simp
  then have "(2::int) ^ min n1 5 \<le> 2 ^ min n2 5"
    by (rule power_increasing) simp
  then have "5 * (2::int) ^ min n1 5 + int j \<le> 5 * 2 ^ min n2 5 + int j"
    by linarith
  then have "min (5 * 2 ^ min n1 5 + int j) 120 \<le> min (5 * 2 ^ min n2 5 + int j) (120::int)"
    by (rule min.mono) simp
  then show ?thesis
    unfolding spec_throttled_wait_def by (simp only: of_int_le_iff)
qed

text \<open>
  C2, as the specification has it, fails: \<open>random.randint(0, 10)\<close> includes 10. With no
  consecutive error and a draw of 10 the wait is 15 seconds, which is none of the values
  \<open>min(5 * 2^0 + jitter, 120)\<close> for a jitter of 0 to 9.
\<close>

theorem calculate_wait_time_jitter_counterexample:
  "fst (calculate_wait_time example_env (rate_limiter_init example_config) (Some 429) world_init)
     = 15
   \<and> fst (calculate_wait_time example_env (rate_limiter_init example_config) (Some 429)
            world_init)
     \<notin> set (map (spec_throttled_wait 0) [0..<10])"
  by (simp add: calculate_wait_time_def example_env_def rate_limiter_init_def world_init_def
      randint_def spec_throttled_wait_def upt_rec)

text \<open>
  C2, amended: for every consecutive-error count \<open>n\<close>, \<open>calculate_wait_time(429)\<close> returns
  \<open>min(5 * 2^min(n, 5) + jitter, 120)\<close> where the jitter is an integer of the closed range
  from 0 to 10; the result never exceeds 120; and every jitter of that range, 10 included,
  is returned for some draw.
\<close>

theorem calculate_wait_time_429:
  "fst (calculate_wait_time e rl (Some 429) w)
     = spec_throttled_wait (consecutive_errors rl) (random_raw e (n_random w) mod 11)
   \<and> fst (calculate_wait_time e rl (Some 429) w)
     \<in> set (map (spec_throttled_wait (consecutive_errors rl)) [0..<11])
   \<and> fst (calculate_wait_time e rl (Some 429) w) \<le> 120
   \<and> fst (calculate_wait_time (e\<lparr>random_raw := (\<lambda>k. j mod 11)\<rparr>) rl (Some 429) w)
     = spec_throttled_wait (consecutive_errors rl) (j mod 11)"
proof -
  have "random_raw e (n_random w) mod 11 \<in> set [0..<11]" by simp
  then have "spec_throttled_wait (consecutive_errors rl) (random_raw e (n_random w) mod 11)
      \<in> set (map (spec_throttled_wait (consecutive_errors rl)) [0..<11])"
    by (simp only: set_map image_eqI)
  then show ?thesis
    by (simp add: calculate_wait_time_429_eq spec_throttled_wait_le_120)
qed

text \<open>
  The two lines both retry loops run after a throttling error give the throttled wait at
  one more consecutive error than before.
\<close>

lemma backoff_eq:
  "backoff e (rl, w) =
     (spec_throttled_wait (Suc (consecutive_errors rl)) (random_raw e (n_random w) mod 11),
      rl\<lparr>consecutive_errors := Suc (consecutive_errors rl),
         last_error_time := Some \<lparr>reading_us = clock_us e (n_clock w), utcoffset_us = Some 0\<rparr>\<rparr>,
      w\<lparr>n_clock := Suc (n_clock w), n_random := Suc (n_random w)\<rparr>)"
  by (simp add: backoff_def on_error_def get_now_def calculate_wait_time_def
      spec_throttled_wait_def randint_def Let_def)

lemma spec_throttled_wait_strict_mono:
  assumes "1 \<le> n1" and "n1 < n2" and "j1 \<le> 10"
  shows "spec_throttled_wait n1 j1 \<le> spec_throttled_wait n2 j2"
proof (cases "5 \<le> n1")
  case True
  then have "min n1 5 = 5" "min n2 5 = 5" using assms by simp_all
  then have "spec_throttled_wait n1 j1 = 120" "spec_throttled_wait n2 j2 = 120"
    by (simp_all add: spec_throttled_wait_def)
  then show ?thesis by simp
next
  case False
  define a where "a = min n1 5"
  define b where "b = min n2 5"
  from False assms have ab: "1 \<le> a" "Suc a \<le> b" by (simp_all add: a_def b_def)
  from ab(1) have "(2::int) ^ 1 \<le> 2 ^ a" by (rule power_increasing) simp
  then have ten: "(10::int) \<le> 5 * 2 ^ a" by simp
  from ab(2) have "(2::int) ^ Suc a \<le> 2 ^ b" by (rule power_increasing) simp
  then have "2 * (2::int) ^ a \<le> 2 ^ b" by simp
  with ten assms(3) have "5 * (2::int) ^ a + int j1 \<le> 5 * 2 ^ b + int j2" by linarith
  then have "min (5 * 2 ^ a + int j1) 120 \<le> min (5 * 2 ^ b + int j2) (120::int)"
    by (rule min.mono) simp
  then show ?thesis
    unfolding spec_throttled_wait_def a_def b_def by (simp only: of_int_le_iff)
qed

text \<open>
  C8, as stated, fails: each throttled wait draws its own jitter, so two waits at the
  same count need not be in order. After the first throttling error of a fresh rate
  limiter the count is 1 in both runs; with a draw of 10 the wait is 20 seconds, with a
  draw of 0 it is 10 seconds.
\<close>

theorem throttled_wait_monotone_counterexample:
  "consecutive_errors (fst (snd (backoff example_env
        (rate_limiter_init example_config, world_init)))) = 1
   \<and> consecutive_errors (fst (snd (backoff (example_env\<lparr>random_raw := (\<lambda>k. 0)\<rparr>)
        (rate_limiter_init example_config, world_init)))) = 1
   \<and> fst (backoff example_env (rate_limiter_init example_config, world_init)) = 20
   \<and> fst (backoff (example_env\<lparr>random_raw := (\<lambda>k. 0)\<rparr>)
        (rate_limiter_init example_config, world_init)) = 10
   \<and> \<not> fst (backoff example_env (rate_limiter_init example_config, world_init))
         \<le> fst (backoff (example_env\<lparr>random_raw := (\<lambda>k. 0)\<rparr>)
                  (rate_limiter_init example_config, world_init))"
  by (simp add: backoff_eq rate_limiter_init_def world_init_def example_env_def
      spec_throttled_wait_def)

text \<open>
  C8, amended: for counts \<open>1 \<le> n1 < n2\<close> the throttled wait at \<open>n1\<close> is at most the
  throttled wait at \<open>n2\<close>, whatever the two jitters are; for counts \<open>n1 \<le> n2\<close> and one
  and the same jitter it is too; no throttled wait exceeds 120 seconds. The counts the
  program computes a throttled wait at are at least 1, since \<open>on_error\<close> runs before
  every \<open>calculate_wait_time(429)\<close>.
\<close>

theorem throttled_wait_monotone:
  "(1 \<le> consecutive_errors rl1 \<and> consecutive_errors rl1 < consecutive_errors rl2 \<longrightarrow>
      fst (calculate_wait_time e1 rl1 (Some 429) w1)
        \<le> fst (calculate_wait_time e2 rl2 (Some 429) w2))
   \<and> (consecutive_errors rl1 \<le> consecutive_errors rl2
       \<and> random_raw e1 (n_random w1) mod 11 = random_raw e2 (n_random w2) mod 11 \<longrightarrow>
      fst (calculate_wait_time e1 rl1 (Some 429) w1)
        \<le> fst (calculate_wait_time e2 rl2 (Some 429) w2))
   \<and> fst (calculate_wait_time e2 rl2 (Some 429) w2) \<le> 120
   \<and> 1 \<le> consecutive_errors (fst (snd (backoff e (rl, w))))
   \<and> fst (backoff e (rl, w))
       = fst (calculate_wait_time e (fst (on_error e (rl, w))) (Some 429)
                (snd (on_error e (rl, w))))"
proof (intro conjI impI)
  assume "1 \<le> consecutive_errors rl1 \<and> consecutive_errors rl1 < consecutive_errors rl2"
  moreover have "random_raw e1 (n_random w1) mod 11 \<le> 10" by simp
  ultimately show "fst (calculate_wait_time e1 rl1 (Some 429) w1)
        \<le> fst (calculate_wait_time e2 rl2 (Some 429) w2)"
    unfolding calculate_wait_time_429_eq by (intro spec_throttled_wait_strict_mono) simp_all
next
  assume "consecutive_errors rl1 \<le> consecutive_errors rl2
       \<and> random_raw e1 (n_random w1) mod 11 = random_raw e2 (n_random w2) mod 11"
  then show "fst (calculate_wait_time e1 rl1 (Some 429) w1)
        \<le> fst (calculate_wait_time e2 rl2 (Some 429) w2)"
    by (simp add: calculate_wait_time_429_eq spec_throttled_wait_mono)
next
  show "fst (calculate_wait_time e2 rl2 (Some 429) w2) \<le> 120"
    by (simp add: calculate_wait_time_429_eq spec_throttled_wait_le_120)
next
  show "1 \<le> consecutive_errors (fst (snd (backoff e (rl, w))))"
    by (simp add: backoff_eq)
next
  show "fst (backoff e (rl, w))
       = fst (calculate_wait_time e (fst (on_error e (rl, w))) (Some 429)
                (snd (on_error e (rl, w))))"
    by (simp add: backoff_def split: prod.split)
qed

theorem throttled_wait_monotone_witness:
  "fst (calculate_wait_time example_env
          ((rate_limiter_init example_config)\<lparr>consecutive_errors := 1\<rparr>) (Some 429) world_init)
     = 20
   \<and> fst (calculate_wait_time (example_env\<lparr>random_raw := (\<lambda>k. 0)\<rparr>)
          ((rate_limiter_init example_config)\<lparr>consecutive_errors := 2\<rparr>) (Some 429) world_init)
     = 20
   \<and> fst (calculate_wait_time example_env
          ((rate_limiter_init example_config)\<lparr>consecutive_errors := 1\<rparr>) (Some 429) world_init)
     \<le> fst (calculate_wait_time (example_env\<lparr>random_raw := (\<lambda>k. 0)\<rparr>)
          ((rate_limiter_init example_config)\<lparr>consecutive_errors := 2\<rparr>) (Some 429) world_init)
   \<and> fst (calculate_wait_time example_env
          ((rate_limiter_init example_config)\<lparr>consecutive_errors := 1\<rparr>) (Some 429) world_init)
     \<le> fst (calculate_wait_time example_env
          ((rate_limiter_init example_config)\<lparr>consecutive_errors := 7\<rparr>) (Some 429) world_init)"
proof -
  let ?rl = "rate_limiter_init example_config"
  let ?e0 = "example_env\<lparr>random_raw := (\<lambda>k. 0)\<rparr>"
  have h1: "1 \<le> consecutive_errors (?rl\<lparr>consecutive_errors := 1\<rparr>)
      \<and> consecutive_errors (?rl\<lparr>consecutive_errors := 1\<rparr>)
          < consecutive_errors (?rl\<lparr>consecutive_errors := 2\<rparr>)"
    by simp
  have h2: "consecutive_errors (?rl\<lparr>consecutive_errors := 1\<rparr>)
        \<le> consecutive_errors (?rl\<lparr>consecutive_errors := 7\<rparr>)
      \<and> random_raw example_env (n_random world_init) mod 11
          = random_raw example_env (n_random world_init) mod 11"
    by simp
  from throttled_wait_monotone [of "?rl\<lparr>consecutive_errors := 1\<rparr>"
      "?rl\<lparr>consecutive_errors := 2\<rparr>" example_env world_init ?e0 world_init] h1
  have a: "fst (calculate_wait_time example_env (?rl\<lparr>consecutive_errors := 1\<rparr>) (Some 429)
              world_init)
     \<le> fst (calculate_wait_time ?e0 (?rl\<lparr>consecutive_errors := 2\<rparr>) (Some 429) world_init)"
    by blast
  from throttled_wait_monotone [of "?rl\<lparr>consecutive_errors := 1\<rparr>"
      "?rl\<lparr>consecutive_errors := 7\<rparr>" example_env world_init example_env world_init] h2
  have b: "fst (calculate_wait_time example_env (?rl\<lparr>consecutive_errors := 1\<rparr>) (Some 429)
              world_init)
     \<le> fst (calculate_wait_time example_env (?rl\<lparr>consecutive_errors := 7\<rparr>) (Some 429)
              world_init)"
    by blast
  have c: "fst (calculate_wait_time example_env (?rl\<lparr>consecutive_errors := 1\<rparr>) (Some 429)
              world_init) = 20"
    "fst (calculate_wait_time ?e0 (?rl\<lparr>consecutive_errors := 2\<rparr>) (Some 429) world_init) = 20"
    by (simp_all add: calculate_wait_time_def example_env_def rate_limiter_init_def
        world_init_def randint_def)
  from a b c show ?thesis by blast
qed

subsection \<open>The promotion with retries\<close>

lemma is_promote_call_promote_call [simp]: "is_promote_call (promote_call p pr pub)"
  by (simp add: is_promote_call_def promote_call_def)

lemma promote_calls_countdown [simp]: "promote_calls (countdown r) = 0"
  by (induction r rule: countdown.induct)
     (subst countdown.simps, simp add: promote_calls_def is_promote_call_def)

lemma promote_calls_append [simp]: "promote_calls (xs @ ys) = promote_calls xs + promote_calls ys"
  by (simp add: promote_calls_def)

lemma promote_calls_Cons_call [simp]:
  "promote_calls (promote_call p pr pub # xs) = Suc (promote_calls xs)"
  by (simp add: promote_calls_def)

lemma promote_calls_Nil [simp]: "promote_calls [] = 0"
  by (simp add: promote_calls_def)

text \<open>One step of the loop, for each kind of reply.\<close>

lemma promote_attempts_success:
  "promote_reply e (n_promote w) = Returns u \<Longrightarrow>
   promote_attempts e p pr pub mr (a # as) (rl, w) =
     ((True, promoted_msg (status_name pr)), on_success rl,
      w\<lparr>trace := trace w @ [promote_call p pr pub], n_promote := Suc (n_promote w)\<rparr>)"
  by (simp add: emit_def)

lemma promote_attempts_other_error:
  "promote_reply e (n_promote w) = Raises m \<Longrightarrow>
   \<not> contains ''429'' m \<Longrightarrow> \<not> contains ''TOO_MANY_REQUESTS'' m \<Longrightarrow>
   promote_attempts e p pr pub mr (a # as) (rl, w) =
     ((False, error_msg m), rl,
      w\<lparr>trace := trace w @ [promote_call p pr pub], n_promote := Suc (n_promote w)\<rparr>)"
  by (simp add: emit_def)

lemma promote_attempts_throttled:
  assumes "promote_reply e (n_promote w) = Raises m"
    and "contains ''429'' m \<or> contains ''TOO_MANY_REQUESTS'' m"
  shows "promote_attempts e p pr pub mr (a # as) (rl, w) =
     (case backoff e (rl, w\<lparr>trace := trace w @ [promote_call p pr pub],
                           n_promote := Suc (n_promote w)\<rparr>) of
        (wait_time, rl2, w3) \<Rightarrow>
          if int a < mr - 1
          then promote_attempts e p pr pub mr as (rl2, countdown_sleep wait_time w3)
          else ((False, exhausted_msg mr), rl2, w3))"
  using assms by (auto simp add: emit_def backoff_def split: prod.splits)

declare promote_attempts.simps [simp del]

lemma promote_attempts_Nil [simp]:
  "promote_attempts e p pr pub mr [] (rl, w) = ((False, unknown_error_msg), rl, w)"
  by (simp add: promote_attempts.simps)

lemma promote_attempts_trace:
  "promote_attempts e p pr pub mr as (rl, w) = (res, rl', w') \<Longrightarrow>
   \<exists>evs. trace w' = trace w @ evs \<and> n_promote w' = n_promote w + promote_calls evs
      \<and> promote_calls evs \<le> length as
      \<and> n_get_items w' = n_get_items w \<and> n_priority w' = n_priority w"
proof (induction as arbitrary: rl w)
  case Nil
  then show ?case by auto
next
  case (Cons a as)
  show ?case
  proof (cases "promote_reply e (n_promote w)")
    case (Returns u)
    with Cons.prems show ?thesis
      by (auto simp add: promote_attempts_success simp del: promote_attempts.simps)
  next
    case (Raises m)
    show ?thesis
    proof (cases "contains ''429'' m \<or> contains ''TOO_MANY_REQUESTS'' m")
      case False
      with Raises Cons.prems show ?thesis
        by (auto simp add: promote_attempts_other_error simp del: promote_attempts.simps)
    next
      case True
      note step = promote_attempts_throttled [OF Raises True, of p pr pub mr a as rl]
      show ?thesis
      proof (cases "int a < mr - 1")
        case False
        with step Cons.prems show ?thesis
          by (auto simp add: backoff_eq simp del: promote_attempts.simps)
      next
        case True
        with step Cons.prems obtain rl2 w3 where
          rec: "promote_attempts e p pr pub mr as (rl2, w3) = (res, rl', w')"
          and w3: "trace w3 = trace w @ promote_call p pr pub # countdown (py_int
             (spec_throttled_wait (Suc (consecutive_errors rl)) (random_raw e (n_random w) mod 11)))"
             "n_promote w3 = Suc (n_promote w)" "n_get_items w3 = n_get_items w"
             "n_priority w3 = n_priority w"
          by (auto simp add: backoff_eq countdown_sleep_def simp del: promote_attempts.simps)
        from Cons.IH [OF rec] obtain evs where
          "trace w' = trace w3 @ evs" "n_promote w' = n_promote w3 + promote_calls evs"
          "promote_calls evs \<le> length as" "n_get_items w' = n_get_items w3"
          "n_priority w' = n_priority w3"
          by blast
        with w3 show ?thesis
          by (intro exI [of _ "promote_call p pr pub # countdown (py_int
             (spec_throttled_wait (Suc (consecutive_errors rl)) (random_raw e (n_random w) mod 11))) @ evs"])
             simp
      qed
    qed
  qed
qed

lemma startswith_append [simp]: "startswith (p @ s) p"
  by (induction p) auto

lemma contains_prefix [simp]: "contains sub (sub @ ys)"
  by (cases "sub @ ys") (auto simp add: startswith_append [of sub ys, simplified] dest: sym)

lemma contains_appendI: "contains sub s \<Longrightarrow> contains sub (xs @ s)"
  by (induction xs) auto

lemma contains_middle: "contains sub (xs @ sub @ ys)"
  by (rule contains_appendI) simp

lemma exhausted_msg_marker: "contains skip_marker (exhausted_msg n)"
proof -
  have "exhausted_msg n = (exhausted_prefix @ str_int n @ exhausted_middle) @ skip_marker @ ''.''"
    by (simp add: exhausted_msg_def)
  then show ?thesis by (simp only: contains_middle)
qed

lemma exhausted_msg_not_unknown: "exhausted_msg n \<noteq> unknown_error_msg"
  by (simp add: exhausted_msg_def exhausted_prefix_def unknown_error_msg_def)

lemma exhausted_msg_not_error: "exhausted_msg n \<noteq> error_msg m"
  by (simp add: exhausted_msg_def exhausted_prefix_def error_msg_def error_prefix_def)

lemma error_msg_not_unknown: "error_msg m \<noteq> unknown_error_msg"
  by (simp add: error_msg_def error_prefix_def unknown_error_msg_def)

lemma error_msg_startswith: "startswith (error_msg m) error_prefix"
  by (simp add: error_msg_def)

lemma unknown_not_startswith: "\<not> startswith unknown_error_msg error_prefix"
  by (simp add: error_prefix_def unknown_error_msg_def)

lemma promote_attempts_exhausted:
  "i < m \<Longrightarrow> mr = int m \<Longrightarrow>
   (\<forall>k < m - i. promote_throttled (promote_reply e (n_promote w + k))) \<Longrightarrow>
   \<exists>rl' w' evs. promote_attempts e p pr pub mr [i..<m] (rl, w) = ((False, exhausted_msg mr), rl', w')
     \<and> n_promote w' = n_promote w + (m - i)
     \<and> trace w' = trace w @ evs @ [promote_call p pr pub]
     \<and> consecutive_errors rl' = consecutive_errors rl + (m - i)"
proof (induction "m - i" arbitrary: i rl w)
  case 0
  then show ?case by simp
next
  case (Suc d)
  from Suc.prems Suc.hyps have "promote_throttled (promote_reply e (n_promote w + 0))"
    by (metis zero_less_Suc)
  then obtain msg where msg: "promote_reply e (n_promote w) = Raises msg"
    "contains ''429'' msg \<or> contains ''TOO_MANY_REQUESTS'' msg"
    by (auto simp add: promote_throttled_def split: outcome.splits)
  have range: "[i..<m] = i # [Suc i..<m]" using Suc.prems by (simp add: upt_conv_Cons)
  note step = promote_attempts_throttled [OF msg, of p pr pub mr i "[Suc i..<m]" rl]
  show ?case
  proof (cases "Suc i < m")
    case False
    then have "m - i = 1" "\<not> int i < mr - 1" using Suc.prems by auto
    then show ?thesis
      unfolding range step backoff_eq by (simp del: promote_attempts.simps)
  next
    case True
    define w3 where "w3 = countdown_sleep
       (spec_throttled_wait (Suc (consecutive_errors rl)) (random_raw e (n_random w) mod 11))
       (w\<lparr>trace := trace w @ [promote_call p pr pub], n_promote := Suc (n_promote w),
          n_clock := Suc (n_clock w), n_random := Suc (n_random w)\<rparr>)"
    define rl2 where "rl2 = rl\<lparr>consecutive_errors := Suc (consecutive_errors rl),
         last_error_time := Some \<lparr>reading_us = clock_us e (n_clock w), utcoffset_us = Some 0\<rparr>\<rparr>"
    have w3: "n_promote w3 = Suc (n_promote w)"
      "\<exists>sl. trace w3 = trace w @ promote_call p pr pub # sl"
      by (simp_all add: w3_def countdown_sleep_def)
    have "d = m - Suc i" using Suc.hyps by simp
    moreover have "\<forall>k < m - Suc i. promote_throttled (promote_reply e (n_promote w3 + k))"
    proof (intro allI impI)
      fix k assume "k < m - Suc i"
      then have "Suc k < m - i" by simp
      with Suc.prems have "promote_throttled (promote_reply e (n_promote w + Suc k))" by blast
      then show "promote_throttled (promote_reply e (n_promote w3 + k))" by (simp add: w3)
    qed
    ultimately obtain rl' w' evs where
      rec: "promote_attempts e p pr pub mr [Suc i..<m] (rl2, w3) = ((False, exhausted_msg mr), rl', w')"
      "n_promote w' = n_promote w3 + (m - Suc i)"
      "trace w' = trace w3 @ evs @ [promote_call p pr pub]"
      "consecutive_errors rl' = consecutive_errors rl2 + (m - Suc i)"
      using Suc.hyps(1) [of "Suc i" w3 rl2] True Suc.prems(2) by blast
    from w3 obtain sl where sl: "trace w3 = trace w @ promote_call p pr pub # sl" by blast
    have "int i < mr - 1" using True Suc.prems by simp
    then have "promote_attempts e p pr pub mr [i..<m] (rl, w) = ((False, exhausted_msg mr), rl', w')"
      unfolding range step backoff_eq using rec(1) by (simp add: w3_def rl2_def)
    moreover have "n_promote w' = n_promote w + (m - i)" using rec(2) w3(1) True by simp
    moreover have "trace w' = trace w @ (promote_call p pr pub # sl @ evs) @ [promote_call p pr pub]"
      using rec(3) sl by simp
    moreover have "consecutive_errors rl' = consecutive_errors rl + (m - i)"
      using rec(4) True by (simp add: rl2_def)
    ultimately show ?thesis by blast
  qed
qed

lemma promote_attempts_Cons_calls:
  "n_promote w < n_promote (snd (snd (promote_attempts e p pr pub mr (a # as) (rl, w))))"
proof (cases "promote_reply e (n_promote w)")
  case (Returns u)
  show ?thesis unfolding promote_attempts_success [OF Returns] by simp
next
  case (Raises msg)
  show ?thesis
  proof (cases "contains ''429'' msg \<or> contains ''TOO_MANY_REQUESTS'' msg")
    case False
    then have "\<not> contains ''429'' msg" "\<not> contains ''TOO_MANY_REQUESTS'' msg" by simp_all
    from promote_attempts_other_error [OF Raises this] show ?thesis by simp
  next
    case True
    note step = promote_attempts_throttled [OF Raises True, of p pr pub mr a as rl]
    show ?thesis
    proof (cases "int a < mr - 1")
      case False
      then show ?thesis unfolding step backoff_eq by simp
    next
      case True
      define rlw where "rlw = (rl\<lparr>consecutive_errors := Suc (consecutive_errors rl),
           last_error_time := Some \<lparr>reading_us = clock_us e (n_clock w), utcoffset_us = Some 0\<rparr>\<rparr>,
         countdown_sleep
           (spec_throttled_wait (Suc (consecutive_errors rl)) (random_raw e (n_random w) mod 11))
           (w\<lparr>trace := trace w @ [promote_call p pr pub], n_promote := Suc (n_promote w),
              n_clock := Suc (n_clock w), n_random := Suc (n_random w)\<rparr>))"
      obtain res rl' w' where r: "promote_attempts e p pr pub mr as (fst rlw, snd rlw) = (res, rl', w')"
        by (metis prod_cases3)
      from promote_attempts_trace [OF r] have "n_promote (snd rlw) \<le> n_promote w'" by auto
      moreover have "n_promote (snd rlw) = Suc (n_promote w)"
        by (simp add: rlw_def countdown_sleep_def)
      moreover have "promote_attempts e p pr pub mr (a # as) (rl, w) = (res, rl', w')"
        unfolding step backoff_eq using True r by (simp add: rlw_def)
      ultimately show ?thesis by simp
    qed
  qed
qed

lemma promote_attempts_other_after:
  "i + k < m \<Longrightarrow> mr = int m \<Longrightarrow>
   (\<forall>j < k. promote_throttled (promote_reply e (n_promote w + j))) \<Longrightarrow>
   promote_reply e (n_promote w + k) = Raises msg \<Longrightarrow>
   \<not> contains ''429'' msg \<Longrightarrow> \<not> contains ''TOO_MANY_REQUESTS'' msg \<Longrightarrow>
   \<exists>rl' w' evs. promote_attempts e p pr pub mr [i..<m] (rl, w) = ((False, error_msg msg), rl', w')
     \<and> n_promote w' = n_promote w + Suc k
     \<and> trace w' = trace w @ evs @ [promote_call p pr pub]
     \<and> consecutive_errors rl' = consecutive_errors rl + k"
proof (induction k arbitrary: i rl w)
  case 0
  then have range: "[i..<m] = i # [Suc i..<m]" by (simp add: upt_conv_Cons)
  from 0 have "promote_reply e (n_promote w) = Raises msg" by simp
  from promote_attempts_other_error [OF this 0(5) 0(6), of p pr pub mr i "[Suc i..<m]" rl]
  have "promote_attempts e p pr pub mr [i..<m] (rl, w) =
     ((False, error_msg msg), rl,
      w\<lparr>trace := trace w @ [promote_call p pr pub], n_promote := Suc (n_promote w)\<rparr>)"
    unfolding range .
  moreover have "n_promote (w\<lparr>trace := trace w @ [promote_call p pr pub],
      n_promote := Suc (n_promote w)\<rparr>) = n_promote w + Suc 0" by simp
  moreover have "trace (w\<lparr>trace := trace w @ [promote_call p pr pub],
      n_promote := Suc (n_promote w)\<rparr>) = trace w @ [] @ [promote_call p pr pub]" by simp
  moreover have "consecutive_errors rl = consecutive_errors rl + 0" by simp
  ultimately show ?case by blast
next
  case (Suc k)
  then have range: "[i..<m] = i # [Suc i..<m]" by (simp add: upt_conv_Cons)
  from Suc.prems have "promote_throttled (promote_reply e (n_promote w + 0))"
    by (metis zero_less_Suc)
  then obtain m0 where m0: "promote_reply e (n_promote w) = Raises m0"
    "contains ''429'' m0 \<or> contains ''TOO_MANY_REQUESTS'' m0"
    by (auto simp add: promote_throttled_def split: outcome.splits)
  note step = promote_attempts_throttled [OF m0, of p pr pub mr i "[Suc i..<m]" rl]
  define w3 where "w3 = countdown_sleep
     (spec_throttled_wait (Suc (consecutive_errors rl)) (random_raw e (n_random w) mod 11))
     (w\<lparr>trace := trace w @ [promote_call p pr pub], n_promote := Suc (n_promote w),
        n_clock := Suc (n_clock w), n_random := Suc (n_random w)\<rparr>)"
  define rl2 where "rl2 = rl\<lparr>consecutive_errors := Suc (consecutive_errors rl),
       last_error_time := Some \<lparr>reading_us = clock_us e (n_clock w), utcoffset_us = Some 0\<rparr>\<rparr>"
  have w3: "n_promote w3 = Suc (n_promote w)"
    "\<exists>sl. trace w3 = trace w @ promote_call p pr pub # sl"
    by (simp_all add: w3_def countdown_sleep_def)
  have a: "Suc i + k < m" using Suc.prems by simp
  have b: "\<forall>j < k. promote_throttled (promote_reply e (n_promote w3 + j))"
  proof (intro allI impI)
    fix j assume "j < k"
    then have "Suc j < Suc k" by simp
    with Suc.prems(3) have "promote_throttled (promote_reply e (n_promote w + Suc j))" by blast
    then show "promote_throttled (promote_reply e (n_promote w3 + j))" by (simp add: w3)
  qed
  have c: "promote_reply e (n_promote w3 + k) = Raises msg" using Suc.prems(4) by (simp add: w3)
  from Suc.IH [OF a Suc.prems(2) b c Suc.prems(5) Suc.prems(6), of rl2] obtain rl' w' evs where
    rec: "promote_attempts e p pr pub mr [Suc i..<m] (rl2, w3) = ((False, error_msg msg), rl', w')"
    "n_promote w' = n_promote w3 + Suc k"
    "trace w' = trace w3 @ evs @ [promote_call p pr pub]"
    "consecutive_errors rl' = consecutive_errors rl2 + k"
    by blast
  from w3 obtain sl where sl: "trace w3 = trace w @ promote_call p pr pub # sl" by blast
  have "int i < mr - 1" using Suc.prems by simp
  then have "promote_attempts e p pr pub mr [i..<m] (rl, w) = ((False, error_msg msg), rl', w')"
    unfolding range step backoff_eq using rec(1) by (simp add: w3_def rl2_def)
  moreover have "n_promote w' = n_promote w + Suc (Suc k)" using rec(2) w3(1) by simp
  moreover have "trace w' = trace w @ (promote_call p pr pub # sl @ evs) @ [promote_call p pr pub]"
    using rec(3) sl by simp
  moreover have "consecutive_errors rl' = consecutive_errors rl + Suc k"
    using rec(4) by (simp add: rl2_def)
  ultimately show ?case by blast
qed

lemma promote_attempts_in_loop:
  "i < m \<Longrightarrow> mr = int m \<Longrightarrow>
   returned_in_loop mr (status_name pr) (fst (promote_attempts e p pr pub mr [i..<m] (rl, w)))"
proof (induction "m - i" arbitrary: i rl w)
  case 0
  then show ?case by simp
next
  case (Suc d)
  have range: "[i..<m] = i # [Suc i..<m]" using Suc.prems by (simp add: upt_conv_Cons)
  show ?case
  proof (cases "promote_reply e (n_promote w)")
    case (Returns u)
    show ?thesis unfolding range promote_attempts_success [OF Returns]
      by (simp add: returned_in_loop_def)
  next
    case (Raises msg)
    show ?thesis
    proof (cases "contains ''429'' msg \<or> contains ''TOO_MANY_REQUESTS'' msg")
      case False
      then have "\<not> contains ''429'' msg" "\<not> contains ''TOO_MANY_REQUESTS'' msg" by simp_all
      from promote_attempts_other_error [OF Raises this]
      show ?thesis unfolding range by (simp add: returned_in_loop_def error_msg_startswith)
    next
      case True
      note step = promote_attempts_throttled [OF Raises True, of p pr pub mr i "[Suc i..<m]" rl]
      show ?thesis
      proof (cases "int i < mr - 1")
        case False
        then show ?thesis unfolding range step backoff_eq
          by (simp add: returned_in_loop_def)
      next
        case True
        then have "Suc i < m" using Suc.prems by simp
        moreover have "d = m - Suc i" using Suc.hyps by simp
        ultimately have "\<And>rl w. returned_in_loop mr (status_name pr)
            (fst (promote_attempts e p pr pub mr [Suc i..<m] (rl, w)))"
          using Suc.hyps(1) Suc.prems(2) by blast
        then show ?thesis unfolding range step backoff_eq using True by simp
      qed
    qed
  qed
qed

lemma not_returned_in_loop_unknown: "\<not> returned_in_loop mr s (False, unknown_error_msg)"
  using exhausted_msg_not_unknown [of mr]
  by (auto simp add: returned_in_loop_def unknown_not_startswith)

lemma py_range_upt: "py_range mr = [0..<nat mr]"
  by (simp add: py_range_def)

text \<open>
  C3: \<open>promote_product_with_retry\<close> makes at most \<open>max_retries\<close> remote calls. When
  every one of its \<open>max_retries\<close> calls is throttled it returns the failure of exhausted
  retries, whose message carries the marker the cycle looks for and differs from every
  other failure message; the last thing it did is the remote call, with no wait after
  it. When a call fails with another error, after any number of throttled ones, it
  returns that failure at once: the failing call is its last one.
\<close>

theorem promote_retry_budget:
  assumes run: "promote_product_with_retry e p pr pub (rl, w) mr = (res, rl', w')"
  shows "(\<exists>evs. trace w' = trace w @ evs \<and> promote_calls evs \<le> nat mr
            \<and> n_promote w' = n_promote w + promote_calls evs)
    \<and> (1 \<le> mr \<and> (\<forall>k < nat mr. promote_throttled (promote_reply e (n_promote w + k))) \<longrightarrow>
         res = (False, exhausted_msg mr) \<and> n_promote w' = n_promote w + nat mr
         \<and> last (trace w') = promote_call p pr pub
         \<and> contains skip_marker (snd res) \<and> snd res \<noteq> unknown_error_msg
         \<and> (\<forall>m. snd res \<noteq> error_msg m))
    \<and> (\<forall>k msg. int k < mr \<and> (\<forall>j < k. promote_throttled (promote_reply e (n_promote w + j)))
            \<and> promote_reply e (n_promote w + k) = Raises msg
            \<and> \<not> contains ''429'' msg \<and> \<not> contains ''TOO_MANY_REQUESTS'' msg \<longrightarrow>
         res = (False, error_msg msg) \<and> n_promote w' = n_promote w + Suc k
         \<and> last (trace w') = promote_call p pr pub
         \<and> consecutive_errors rl' = consecutive_errors rl + k)"
proof (intro conjI impI allI)
  from run have att: "promote_attempts e p pr pub mr [0..<nat mr] (rl, w) = (res, rl', w')"
    by (simp add: promote_product_with_retry_def py_range_upt)
  from promote_attempts_trace [OF att]
  show "\<exists>evs. trace w' = trace w @ evs \<and> promote_calls evs \<le> nat mr
            \<and> n_promote w' = n_promote w + promote_calls evs"
    by auto
  {
    assume h: "1 \<le> mr \<and> (\<forall>k < nat mr. promote_throttled (promote_reply e (n_promote w + k)))"
    then have "0 < nat mr" "mr = int (nat mr)"
      "\<forall>k < nat mr - 0. promote_throttled (promote_reply e (n_promote w + k))"
      by simp_all
    from promote_attempts_exhausted [OF this, of p pr pub rl] att
    have r: "res = (False, exhausted_msg mr)" "n_promote w' = n_promote w + nat mr"
      "\<exists>evs. trace w' = trace w @ evs @ [promote_call p pr pub]"
      by auto
    show "res = (False, exhausted_msg mr)" by (rule r(1))
    show "n_promote w' = n_promote w + nat mr" by (rule r(2))
    from r(3) show "last (trace w') = promote_call p pr pub" by auto
    show "contains skip_marker (snd res)" by (simp add: r(1) exhausted_msg_marker)
    show "snd res \<noteq> unknown_error_msg" by (simp add: r(1) exhausted_msg_not_unknown)
    show "snd res \<noteq> error_msg m" for m by (simp add: r(1) exhausted_msg_not_error)
  }
  {
    fix k msg
    assume h: "int k < mr \<and> (\<forall>j < k. promote_throttled (promote_reply e (n_promote w + j)))
            \<and> promote_reply e (n_promote w + k) = Raises msg
            \<and> \<not> contains ''429'' msg \<and> \<not> contains ''TOO_MANY_REQUESTS'' msg"
    then have "0 + k < nat mr" "mr = int (nat mr)"
      "\<forall>j < k. promote_throttled (promote_reply e (n_promote w + j))"
      "promote_reply e (n_promote w + k) = Raises msg"
      "\<not> contains ''429'' msg" "\<not> contains ''TOO_MANY_REQUESTS'' msg"
      by auto
    from promote_attempts_other_after [OF this, of p pr pub rl] att
    have r: "res = (False, error_msg msg)" "n_promote w' = n_promote w + Suc k"
      "\<exists>evs. trace w' = trace w @ evs @ [promote_call p pr pub]"
      "consecutive_errors rl' = consecutive_errors rl + k"
      by auto
    show "res = (False, error_msg msg)" by (rule r(1))
    show "n_promote w' = n_promote w + Suc k" by (rule r(2))
    from r(3) show "last (trace w') = promote_call p pr pub" by auto
    show "consecutive_errors rl' = consecutive_errors rl + k" by (rule r(4))
  }
qed

text \<open>The definitions a run on a concrete input unfolds.\<close>

lemmas eval_defs = promote_product_with_retry_def py_range_def promote_attempts.simps
  emit_def promote_call_def on_error_def on_success_def get_now_def calculate_wait_time_def
  randint_def countdown_sleep_def py_int_def countdown.simps rate_limiter_init_def
  world_init_def example_env_def example_config_def gem_def premium_status_def upt_rec

theorem promote_retry_budget_witness:
  "promote_product_with_retry (example_env\<lparr>promote_reply := (\<lambda>k. Raises ''HTTP 429'')\<rparr>)
      (gem ''a'') premium_status True (rate_limiter_init example_config, world_init) 3
   = ((False, exhausted_msg 3),
      \<lparr>rl_config = example_config, consecutive_errors = 3,
       last_error_time = Some \<lparr>reading_us = 10000000000, utcoffset_us = Some 0\<rparr>\<rparr>,
      \<lparr>trace = Increase_item_priority_status ''a'' ''p1'' # Sleep 5 # Sleep 5 # Sleep 5 # Sleep 5
          # Increase_item_priority_status ''a'' ''p1''
          # Sleep 5 # Sleep 5 # Sleep 5 # Sleep 5 # Sleep 5 # Sleep 5
          # [Increase_item_priority_status ''a'' ''p1''],
       n_get_items = 0, n_priority = 0, n_promote = 3, n_clock = 3, n_random = 3\<rparr>)
   \<and> contains skip_marker (exhausted_msg 3)
   \<and> fst (promote_product_with_retry
        (example_env\<lparr>promote_reply := (\<lambda>k. if k = 0 then Raises ''HTTP 429''
                                            else Raises ''HTTP 500'')\<rparr>)
        (gem ''a'') premium_status True (rate_limiter_init example_config, world_init) 3)
     = (False, error_msg ''HTTP 500'')"
proof -
  let ?e = "example_env\<lparr>promote_reply := (\<lambda>k. Raises ''HTTP 429'')\<rparr>"
  let ?e2 = "example_env\<lparr>promote_reply := (\<lambda>k. if k = 0 then Raises ''HTTP 429''
                                            else Raises ''HTTP 500'')\<rparr>"
  let ?rl = "rate_limiter_init example_config"
  have run: "promote_product_with_retry ?e (gem ''a'') premium_status True (?rl, world_init) 3
   = ((False, exhausted_msg 3),
      \<lparr>rl_config = example_config, consecutive_errors = 3,
       last_error_time = Some \<lparr>reading_us = 10000000000, utcoffset_us = Some 0\<rparr>\<rparr>,
      \<lparr>trace = Increase_item_priority_status ''a'' ''p1'' # Sleep 5 # Sleep 5 # Sleep 5 # Sleep 5
          # Increase_item_priority_status ''a'' ''p1''
          # Sleep 5 # Sleep 5 # Sleep 5 # Sleep 5 # Sleep 5 # Sleep 5
          # [Increase_item_priority_status ''a'' ''p1''],
       n_get_items = 0, n_priority = 0, n_promote = 3, n_clock = 3, n_random = 3\<rparr>)"
    by (simp add: eval_defs)
  have hyp: "(1::int) \<le> 3 \<and> (\<forall>k < nat 3.
      promote_throttled (promote_reply ?e (n_promote world_init + k)))"
    by (simp add: promote_throttled_def)
  obtain res rl' w' where run2:
    "promote_product_with_retry ?e2 (gem ''a'') premium_status True (?rl, world_init) 3
       = (res, rl', w')"
    by (metis prod_cases3)
  have hyp2: "int 1 < 3 \<and> (\<forall>j < 1. promote_throttled (promote_reply ?e2 (n_promote world_init + j)))
      \<and> promote_reply ?e2 (n_promote world_init + 1) = Raises ''HTTP 500''
      \<and> \<not> contains ''429'' ''HTTP 500'' \<and> \<not> contains ''TOO_MANY_REQUESTS'' ''HTTP 500''"
    by (simp add: promote_throttled_def world_init_def)
  from promote_retry_budget [OF run] hyp have "contains skip_marker (exhausted_msg 3)"
    by simp
  moreover from promote_retry_budget [OF run2] hyp2 have "res = (False, error_msg ''HTTP 500'')"
    by blast
  ultimately show ?thesis using run run2 by simp
qed

text \<open>
  C9: for every \<open>max_retries \<ge> 1\<close>, \<open>promote_product_with_retry\<close> returns by one of the
  three \<open>return\<close> statements inside its loop, after at least one remote call; the result
  of the \<open>return\<close> after the loop (line 534) is never its result.
\<close>

theorem promote_fallback_unreachable:
  assumes "1 \<le> mr"
  shows "returned_in_loop mr (status_name pr)
           (fst (promote_product_with_retry e p pr pub (rl, w) mr))
    \<and> fst (promote_product_with_retry e p pr pub (rl, w) mr) \<noteq> (False, unknown_error_msg)
    \<and> n_promote w < n_promote (snd (snd (promote_product_with_retry e p pr pub (rl, w) mr)))"
proof -
  let ?r = "promote_product_with_retry e p pr pub (rl, w) mr"
  have eq: "?r = promote_attempts e p pr pub mr [0..<nat mr] (rl, w)"
    by (simp add: promote_product_with_retry_def py_range_upt)
  from assms have "0 < nat mr" "mr = int (nat mr)" by simp_all
  from promote_attempts_in_loop [OF this, of pr e p pub rl w]
  have a: "returned_in_loop mr (status_name pr) (fst ?r)" by (simp add: eq)
  then have b: "fst ?r \<noteq> (False, unknown_error_msg)"
    using not_returned_in_loop_unknown by metis
  from \<open>0 < nat mr\<close> have "[0..<nat mr] = 0 # [Suc 0..<nat mr]" by (simp add: upt_conv_Cons)
  then have c: "n_promote w < n_promote (snd (snd ?r))"
    using promote_attempts_Cons_calls [of w e p pr pub mr 0 "[Suc 0..<nat mr]" rl]
    by (simp add: eq)
  from a b c show ?thesis by simp
qed

theorem promote_fallback_unreachable_witness:
  "(1::int) \<le> 3
   \<and> fst (promote_product_with_retry example_env (gem ''a'') premium_status True
            (rate_limiter_init example_config, world_init) 3)
       = (True, promoted_msg ''Premium'')
   \<and> fst (promote_product_with_retry example_env (gem ''a'') premium_status True
            (rate_limiter_init example_config, world_init) 3)
       \<noteq> (False, unknown_error_msg)"
proof -
  have h: "(1::int) \<le> 3" by simp
  have "fst (promote_product_with_retry example_env (gem ''a'') premium_status True
            (rate_limiter_init example_config, world_init) 3)
       = (True, promoted_msg ''Premium'')"
    by (simp add: eval_defs)
  with promote_fallback_unreachable [OF h, of premium_status example_env "gem ''a''" True
      "rate_limiter_init example_config" world_init]
  show ?thesis by simp
qed

text \<open>Without an attempt the loop is empty and the last \<open>return\<close> is reached.\<close>

lemma promote_fallback_without_attempts:
  "mr \<le> 0 \<Longrightarrow>
   promote_product_with_retry e p pr pub (rl, w) mr = ((False, unknown_error_msg), rl, w)"
  by (simp add: promote_product_with_retry_def py_range_def)

subsection \<open>The page loop\<close>

lemma rl_config_on_success [simp]: "rl_config (on_success rl) = rl_config rl"
  by (simp add: on_success_def)

lemma fetch_attempts_success:
  "get_items_reply e (n_get_items (world st)) = Returns page \<Longrightarrow>
   fetch_attempts e mr (a # as) st =
     (Break page, st\<lparr>rate_limiter := on_success (rate_limiter st),
        world := (world st)\<lparr>trace := trace (world st) @ [Get_items (cursor st)],
                            n_get_items := Suc (n_get_items (world st))\<rparr>\<rparr>)"
  by (simp add: emit_def Let_def)

lemma fetch_attempts_other_error:
  "get_items_reply e (n_get_items (world st)) = Raises m \<Longrightarrow>
   \<not> (contains ''429'' m \<or> contains ''TOO_MANY_REQUESTS'' m \<or> contains ''Too many attempts'' m) \<Longrightarrow>
   fetch_attempts e mr (a # as) st =
     (Return_from_cycle,
      print_summary (st\<lparr>total_errors := total_errors st + 1,
        world := (world st)\<lparr>trace := trace (world st) @ [Get_items (cursor st)],
                            n_get_items := Suc (n_get_items (world st))\<rparr>\<rparr>))"
  by (simp add: emit_def Let_def)

lemma fetch_attempts_throttled:
  assumes "get_items_reply e (n_get_items (world st)) = Raises m"
    and "contains ''429'' m \<or> contains ''TOO_MANY_REQUESTS'' m \<or> contains ''Too many attempts'' m"
  shows "fetch_attempts e mr (a # as) st =
     (case backoff e (rate_limiter st,
             (world st)\<lparr>trace := trace (world st) @ [Get_items (cursor st)],
                         n_get_items := Suc (n_get_items (world st))\<rparr>) of
        (wait_time, rl2, w3) \<Rightarrow>
          if int a < mr - 1
          then fetch_attempts e mr as (st\<lparr>rate_limiter := rl2, world := countdown_sleep wait_time w3\<rparr>)
          else (Return_from_cycle,
                print_summary (st\<lparr>total_errors := total_errors st + 1, rate_limiter := rl2,
                                 world := w3\<rparr>)))"
  using assms by (auto simp add: emit_def backoff_def Let_def split: prod.splits)

declare fetch_attempts.simps [simp del]

lemma fetch_attempts_Nil [simp]: "fetch_attempts e mr [] st = (Loop_ended, st)"
  by (simp add: fetch_attempts.simps)

lemma listings_fetched_same [simp]: "listings_fetched e a a = 0"
  by (simp add: listings_fetched_def)

lemma listings_fetched_Suc_left:
  "a < b \<Longrightarrow> listings_fetched e a b =
     (case get_items_reply e a of Returns page \<Rightarrow> length (items page) | Raises m \<Rightarrow> 0)
     + listings_fetched e (Suc a) b"
  by (simp add: listings_fetched_def sum.atLeast_Suc_lessThan)

lemma listings_fetched_concat:
  "a \<le> b \<Longrightarrow> b \<le> c \<Longrightarrow> listings_fetched e a b + listings_fetched e b c = listings_fetched e a c"
  by (simp add: listings_fetched_def sum.atLeastLessThan_concat)

lemma fetch_attempts_post:
  "fetch_attempts e mr as st = (flow, st') \<Longrightarrow> fetch_post e st flow st'"
proof (induction as arbitrary: st)
  case Nil
  then show ?case by (auto simp add: fetch_post_def)
next
  case (Cons a as)
  let ?n = "n_get_items (world st)"
  show ?case
  proof (cases "get_items_reply e ?n")
    case (Returns page)
    from Cons.prems show ?thesis
      unfolding fetch_attempts_success [OF Returns]
      by (auto simp add: fetch_post_def listings_fetched_Suc_left Returns)
  next
    case (Raises m)
    show ?thesis
    proof (cases "contains ''429'' m \<or> contains ''TOO_MANY_REQUESTS'' m \<or> contains ''Too many attempts'' m")
      case False
      from Cons.prems show ?thesis
        unfolding fetch_attempts_other_error [OF Raises False]
        by (auto simp add: fetch_post_def listings_fetched_Suc_left Raises print_summary_def emit_def)
    next
      case True
      note step = fetch_attempts_throttled [OF Raises True, of mr a as]
      show ?thesis
      proof (cases "int a < mr - 1")
        case False
        with Cons.prems show ?thesis
          unfolding step backoff_eq
          by (auto simp add: fetch_post_def listings_fetched_Suc_left Raises print_summary_def emit_def)
      next
        case True
        define st2 where "st2 = st\<lparr>rate_limiter := (rate_limiter st)
              \<lparr>consecutive_errors := Suc (consecutive_errors (rate_limiter st)),
               last_error_time := Some \<lparr>reading_us = clock_us e (n_clock (world st)),
                                         utcoffset_us = Some 0\<rparr>\<rparr>,
            world := countdown_sleep
              (spec_throttled_wait (Suc (consecutive_errors (rate_limiter st)))
                 (random_raw e (n_random (world st)) mod 11))
              ((world st)\<lparr>trace := trace (world st) @ [Get_items (cursor st)],
                 n_get_items := Suc ?n, n_clock := Suc (n_clock (world st)),
                 n_random := Suc (n_random (world st))\<rparr>)\<rparr>"
        from True Cons.prems have rec: "fetch_attempts e mr as st2 = (flow, st')"
          unfolding step backoff_eq by (simp add: st2_def)
        have st2: "cursor st2 = cursor st" "total_checked st2 = total_checked st"
          "total_promoted st2 = total_promoted st" "total_skipped st2 = total_skipped st"
          "promoted_by_name st2 = promoted_by_name st" "total_errors st2 = total_errors st"
          "n_get_items (world st2) = Suc ?n"
          "rl_config (rate_limiter st2) = rl_config (rate_limiter st)"
          by (simp_all add: st2_def countdown_sleep_def)
        from Cons.IH [OF rec] have post: "fetch_post e st2 flow st'" .
        then have le: "Suc ?n \<le> n_get_items (world st')"
          by (simp add: fetch_post_def st2)
        then have lf: "listings_fetched e ?n (n_get_items (world st'))
            = listings_fetched e (Suc ?n) (n_get_items (world st'))"
          by (simp add: listings_fetched_Suc_left Raises)
        from post le show ?thesis
          by (cases flow) (auto simp add: fetch_post_def st2 lf)
      qed
    qed
  qed
qed

lemma fetch_attempts_no_loop_end:
  "i < m \<Longrightarrow> mr = int m \<Longrightarrow> fst (fetch_attempts e mr [i..<m] st) \<noteq> Loop_ended"
proof (induction "m - i" arbitrary: i st)
  case 0
  then show ?case by simp
next
  case (Suc d)
  have range: "[i..<m] = i # [Suc i..<m]" using Suc.prems by (simp add: upt_conv_Cons)
  show ?case
  proof (cases "get_items_reply e (n_get_items (world st))")
    case (Returns page)
    show ?thesis unfolding range fetch_attempts_success [OF Returns] by simp
  next
    case (Raises msg)
    show ?thesis
    proof (cases "contains ''429'' msg \<or> contains ''TOO_MANY_REQUESTS'' msg
        \<or> contains ''Too many attempts'' msg")
      case False
      show ?thesis unfolding range fetch_attempts_other_error [OF Raises False] by simp
    next
      case True
      note step = fetch_attempts_throttled [OF Raises True, of mr i "[Suc i..<m]"]
      show ?thesis
      proof (cases "int i < mr - 1")
        case False
        then show ?thesis unfolding range step backoff_eq by simp
      next
        case True
        then have "Suc i < m" using Suc.prems by simp
        moreover have "d = m - Suc i" using Suc.hyps by simp
        ultimately have "\<And>st. fst (fetch_attempts e mr [Suc i..<m] st) \<noteq> Loop_ended"
          using Suc.hyps(1) Suc.prems(2) by blast
        then show ?thesis unfolding range step backoff_eq using True by simp
      qed
    qed
  qed
qed

lemma fetch_attempts_all_throttled:
  "i < m \<Longrightarrow> mr = int m \<Longrightarrow>
   (\<forall>k < m - i. fetch_throttled (get_items_reply e (n_get_items (world st) + k))) \<Longrightarrow>
   fst (fetch_attempts e mr [i..<m] st) = Return_from_cycle
   \<and> n_get_items (world (snd (fetch_attempts e mr [i..<m] st))) = n_get_items (world st) + (m - i)"
proof (induction "m - i" arbitrary: i st)
  case 0
  then show ?case by simp
next
  case (Suc d)
  let ?n = "n_get_items (world st)"
  have range: "[i..<m] = i # [Suc i..<m]" using Suc.prems by (simp add: upt_conv_Cons)
  from Suc.prems Suc.hyps have "fetch_throttled (get_items_reply e (?n + 0))"
    by (metis zero_less_Suc)
  then obtain msg where msg: "get_items_reply e ?n = Raises msg"
    "contains ''429'' msg \<or> contains ''TOO_MANY_REQUESTS'' msg \<or> contains ''Too many attempts'' msg"
    by (auto simp add: fetch_throttled_def split: outcome.splits)
  note step = fetch_attempts_throttled [OF msg, of mr i "[Suc i..<m]"]
  show ?case
  proof (cases "Suc i < m")
    case False
    then have "m - i = 1" "\<not> int i < mr - 1" using Suc.prems by auto
    then show ?thesis unfolding range step backoff_eq by (simp add: print_summary_def emit_def)
  next
    case True
    define st2 where "st2 = st\<lparr>rate_limiter := (rate_limiter st)
          \<lparr>consecutive_errors := Suc (consecutive_errors (rate_limiter st)),
           last_error_time := Some \<lparr>reading_us = clock_us e (n_clock (world st)),
                                     utcoffset_us = Some 0\<rparr>\<rparr>,
        world := countdown_sleep
          (spec_throttled_wait (Suc (consecutive_errors (rate_limiter st)))
             (random_raw e (n_random (world st)) mod 11))
          ((world st)\<lparr>trace := trace (world st) @ [Get_items (cursor st)],
             n_get_items := Suc ?n, n_clock := Suc (n_clock (world st)),
             n_random := Suc (n_random (world st))\<rparr>)\<rparr>"
    have n2: "n_get_items (world st2) = Suc ?n" by (simp add: st2_def countdown_sleep_def)
    have "int i < mr - 1" using True Suc.prems by simp
    then have eq: "fetch_attempts e mr [i..<m] st = fetch_attempts e mr [Suc i..<m] st2"
      unfolding range step backoff_eq by (simp add: st2_def)
    have "d = m - Suc i" using Suc.hyps by simp
    moreover have "\<forall>k < m - Suc i. fetch_throttled (get_items_reply e (n_get_items (world st2) + k))"
    proof (intro allI impI)
      fix k assume "k < m - Suc i"
      then have "Suc k < m - i" by simp
      with Suc.prems have "fetch_throttled (get_items_reply e (?n + Suc k))" by blast
      then show "fetch_throttled (get_items_reply e (n_get_items (world st2) + k))" by (simp add: n2)
    qed
    ultimately have "fst (fetch_attempts e mr [Suc i..<m] st2) = Return_from_cycle
      \<and> n_get_items (world (snd (fetch_attempts e mr [Suc i..<m] st2)))
          = n_get_items (world st2) + (m - Suc i)"
      using Suc.hyps(1) [of "Suc i" st2] True Suc.prems(2) by blast
    then show ?thesis using True by (simp add: eq n2)
  qed
qed

lemma fetch_attempts_other_after:
  "i + k < m \<Longrightarrow> mr = int m \<Longrightarrow>
   (\<forall>j < k. fetch_throttled (get_items_reply e (n_get_items (world st) + j))) \<Longrightarrow>
   fetch_other_error (get_items_reply e (n_get_items (world st) + k)) \<Longrightarrow>
   fst (fetch_attempts e mr [i..<m] st) = Return_from_cycle
   \<and> n_get_items (world (snd (fetch_attempts e mr [i..<m] st))) = n_get_items (world st) + Suc k"
proof (induction k arbitrary: i st)
  case 0
  then have range: "[i..<m] = i # [Suc i..<m]" by (simp add: upt_conv_Cons)
  from 0 obtain msg where msg: "get_items_reply e (n_get_items (world st)) = Raises msg"
    "\<not> (contains ''429'' msg \<or> contains ''TOO_MANY_REQUESTS'' msg
        \<or> contains ''Too many attempts'' msg)"
    by (auto simp add: fetch_other_error_def split: outcome.splits)
  show ?case unfolding range fetch_attempts_other_error [OF msg]
    by (simp add: print_summary_def emit_def)
next
  case (Suc k)
  let ?n = "n_get_items (world st)"
  from Suc.prems have range: "[i..<m] = i # [Suc i..<m]" by (simp add: upt_conv_Cons)
  from Suc.prems have "fetch_throttled (get_items_reply e (?n + 0))"
    by (metis zero_less_Suc)
  then obtain msg where msg: "get_items_reply e ?n = Raises msg"
    "contains ''429'' msg \<or> contains ''TOO_MANY_REQUESTS'' msg \<or> contains ''Too many attempts'' msg"
    by (auto simp add: fetch_throttled_def split: outcome.splits)
  note step = fetch_attempts_throttled [OF msg, of mr i "[Suc i..<m]"]
  define st2 where "st2 = st\<lparr>rate_limiter := (rate_limiter st)
        \<lparr>consecutive_errors := Suc (consecutive_errors (rate_limiter st)),
         last_error_time := Some \<lparr>reading_us = clock_us e (n_clock (world st)),
                                   utcoffset_us = Some 0\<rparr>\<rparr>,
      world := countdown_sleep
        (spec_throttled_wait (Suc (consecutive_errors (rate_limiter st)))
           (random_raw e (n_random (world st)) mod 11))
        ((world st)\<lparr>trace := trace (world st) @ [Get_items (cursor st)],
           n_get_items := Suc ?n, n_clock := Suc (n_clock (world st)),
           n_random := Suc (n_random (world st))\<rparr>)\<rparr>"
  have n2: "n_get_items (world st2) = Suc ?n" by (simp add: st2_def countdown_sleep_def)
  have "int i < mr - 1" using Suc.prems by simp
  then have eq: "fetch_attempts e mr [i..<m] st = fetch_attempts e mr [Suc i..<m] st2"
    unfolding range step backoff_eq by (simp add: st2_def)
  have a: "Suc i + k < m" using Suc.prems by simp
  have b: "\<forall>j < k. fetch_throttled (get_items_reply e (n_get_items (world st2) + j))"
  proof (intro allI impI)
    fix j assume "j < k"
    then have "Suc j < Suc k" by simp
    with Suc.prems(3) have "fetch_throttled (get_items_reply e (?n + Suc j))" by blast
    then show "fetch_throttled (get_items_reply e (n_get_items (world st2) + j))" by (simp add: n2)
  qed
  have c: "fetch_other_error (get_items_reply e (n_get_items (world st2) + k))"
    using Suc.prems(4) by (simp add: n2)
  from Suc.IH [OF a Suc.prems(2) b c] show ?case by (simp add: eq n2)
qed

subsection \<open>One listing\<close>

lemma promote_attempts_config:
  "promote_attempts e p pr pub mr as (rl, w) = (res, rl', w') \<Longrightarrow> rl_config rl' = rl_config rl"
proof (induction as arbitrary: rl w)
  case Nil
  then show ?case by auto
next
  case (Cons a as)
  show ?case
  proof (cases "promote_reply e (n_promote w)")
    case (Returns u)
    with Cons.prems show ?thesis by (auto simp add: promote_attempts_success)
  next
    case (Raises m)
    show ?thesis
    proof (cases "contains ''429'' m \<or> contains ''TOO_MANY_REQUESTS'' m")
      case False
      with Raises Cons.prems show ?thesis by (auto simp add: promote_attempts_other_error)
    next
      case True
      note step = promote_attempts_throttled [OF Raises True, of p pr pub mr a as rl]
      show ?thesis
      proof (cases "int a < mr - 1")
        case False
        with step Cons.prems show ?thesis by (auto simp add: backoff_eq)
      next
        case True
        with step Cons.prems obtain rl2 w3 where
          rec: "promote_attempts e p pr pub mr as (rl2, w3) = (res, rl', w')"
          and c: "rl_config rl2 = rl_config rl"
          by (auto simp add: backoff_eq)
        from Cons.IH [OF rec] c show ?thesis by simp
      qed
    qed
  qed
qed

lemma uniform_le_max: "uniform a b raw \<le> max a b"
proof -
  define f where "f = raw - of_int \<lfloor>raw\<rfloor>"
  have f: "0 \<le> f" "f < 1" by (simp_all add: f_def) linarith
  have u: "uniform a b raw = a + (b - a) * f" by (simp add: uniform_def f_def)
  show ?thesis
  proof (cases "a \<le> b")
    case True
    then have "(b - a) * f \<le> (b - a) * 1" using f by (intro mult_left_mono) simp_all
    then show ?thesis using True by (simp add: u)
  next
    case False
    then have "(b - a) * f \<le> 0" using f by (simp add: mult_le_0_iff)
    then show ?thesis using False by (simp add: u)
  qed
qed

lemma calculate_wait_time_promo:
  "calculate_wait_time e rl None w =
     (uniform (fst (delay_between_promos_bounds (rl_config rl)))
        (snd (delay_between_promos_bounds (rl_config rl))) (random_unit e (n_random w)),
      w\<lparr>n_random := Suc (n_random w)\<rparr>)"
  by (simp add: calculate_wait_time_def random_delay_between_promos_sec_def split: prod.split)

lemma promo_wait_le_limit:
  "promo_delay_ok (rl_config rl) \<Longrightarrow> fst (calculate_wait_time e rl None w) \<le> sleep_limit"
  using uniform_le_max [of "fst (delay_between_promos_bounds (rl_config rl))"
      "snd (delay_between_promos_bounds (rl_config rl))" "random_unit e (n_random w)"]
  by (auto simp add: calculate_wait_time_promo promo_delay_ok_def)

lemma time_sleep_ok: "secs \<le> sleep_limit \<Longrightarrow> time_sleep secs w = (None, emit (Sleep secs) w)"
  by (simp add: time_sleep_def)

lemma time_sleep_counters [simp]:
  "n_get_items (snd (time_sleep secs w)) = n_get_items w"
  by (simp add: time_sleep_def emit_def)

lemma time_sleep_trace:
  "fst (time_sleep secs w) \<noteq> None \<Longrightarrow> snd (time_sleep secs w) = w"
  by (simp add: time_sleep_def split: if_splits)

lemma promote_step_post: "promote_step_post nm st (promote_step e cfg product nm st)"
proof (cases "priority_statuses_reply e (n_priority (world st))")
  case (Raises err)
  then show ?thesis
    by (simp add: promote_step_def promote_step_post_def outcomes_def emit_def Let_def)
next
  case (Returns statuses)
  show ?thesis
  proof (cases "find (\<lambda>status. status_type status = PREMIUM) statuses")
    case None
    with Returns show ?thesis
      by (simp add: promote_step_def promote_step_post_def outcomes_def emit_def Let_def)
  next
    case (Some premium)
    let ?w1 = "(emit (Get_item_priority_statuses (item_id product)) (world st))
                 \<lparr>n_priority := Suc (n_priority (world st))\<rparr>"
    define r where "r = promote_product_with_retry e product premium
        (item_status cfg = ''APPROVED'') (rate_limiter st, ?w1) 3"
    obtain success message rl2 w2 where r: "r = ((success, message), rl2, w2)"
      by (cases r) auto
    have att: "promote_attempts e product premium (item_status cfg = ''APPROVED'') 3 (py_range 3)
              (rate_limiter st, ?w1) = ((success, message), rl2, w2)"
      using r unfolding r_def promote_product_with_retry_def .
    from promote_attempts_trace [OF att] have n: "n_get_items w2 = n_get_items (world st)"
      by (auto simp add: emit_def)
    from promote_attempts_config [OF att] have cf: "rl_config rl2 = rl_config (rate_limiter st)" .
    define c where "c = calculate_wait_time e rl2 None w2"
    obtain wait_time w3 where cw: "c = (wait_time, w3)"
      by (cases c) auto
    have "n_get_items (snd c) = n_get_items w2"
      unfolding c_def by (simp add: calculate_wait_time_promo)
    with n cw have n3: "n_get_items w3 = n_get_items (world st)" by simp
    define sl where "sl = time_sleep wait_time w3"
    obtain exn w4 where sl': "sl = (exn, w4)" by (cases sl) auto
    have "n_get_items (snd sl) = n_get_items w3" unfolding sl_def by simp
    with n3 sl' have n4: "n_get_items w4 = n_get_items (world st)" by simp
    have ok: "promo_delay_ok (rl_config (rate_limiter st)) \<Longrightarrow> exn = None"
    proof -
      assume "promo_delay_ok (rl_config (rate_limiter st))"
      with cf have "fst c \<le> sleep_limit" unfolding c_def by (simp add: promo_wait_le_limit)
      with cw have "wait_time \<le> sleep_limit" by simp
      from time_sleep_ok [OF this, of w3] sl' show "exn = None" by (simp add: sl_def)
    qed
    let ?promoted = "st\<lparr>total_promoted := total_promoted st + 1,
         promoted_by_name := (promoted_by_name st)(nm := promoted_by_name st nm + 1),
         rate_limiter := rl2\<rparr>"
    have eq: "promote_step e cfg product nm st =
       (if success then
          (if wait_time > 0 then
             (case exn of
                None \<Rightarrow> ?promoted\<lparr>world := w4\<rparr>
              | Some err \<Rightarrow> ?promoted\<lparr>total_errors := total_errors st + 1, world := w4\<rparr>)
           else ?promoted\<lparr>world := w3\<rparr>)
        else if contains skip_marker message
        then st\<lparr>total_skipped := total_skipped st + 1, rate_limiter := rl2, world := w2\<rparr>
        else st\<lparr>total_errors := total_errors st + 1, rate_limiter := rl2, world := w2\<rparr>)"
      unfolding promote_step_def Let_def
      apply (simp only: Returns Some outcome.case option.case)
      apply (fold r_def)
      apply (simp only: r prod.case)
      apply (fold c_def)
      apply (simp only: cw prod.case)
      apply (fold sl_def)
      apply (simp only: sl' prod.case)
      apply (cases exn)
       apply simp_all
      done
    show ?thesis
    proof (cases exn)
      case None
      then show ?thesis unfolding eq
        by (simp add: promote_step_post_def outcomes_def n n3 n4 cf)
    next
      case (Some err)
      with ok show ?thesis unfolding eq
        by (auto simp add: promote_step_post_def outcomes_def n n3 n4 cf)
    qed
  qed
qed

lemma get_now_snd [simp]: "snd (get_now e w) = tick w"
  by (simp add: get_now_def tick_def)

lemma passes_name_filter_iff:
  "passes_name_filter e cfg product \<longleftrightarrow>
     \<not> (include_names cfg \<noteq> {} \<and> normalize_name e (item_name product) \<notin> include_names cfg)
     \<and> \<not> (include_names cfg = {} \<and> exclude_names cfg \<noteq> {}
            \<and> normalize_name e (item_name product) \<in> exclude_names cfg)"
  by (simp only: passes_name_filter_def Let_def)

lemma process_item_filtered:
  assumes "\<not> passes_name_filter e cfg product"
  shows "process_item e cfg product st =
     st\<lparr>total_checked := total_checked st + 1, total_skipped := total_skipped st + 1\<rparr>"
proof (cases "include_names cfg \<noteq> {} \<and> normalize_name e (item_name product) \<notin> include_names cfg")
  case True
  then show ?thesis
    unfolding process_item_def Let_def by (simp split del: if_split)
next
  case False
  with assms have "include_names cfg = {} \<and> exclude_names cfg \<noteq> {}
            \<and> normalize_name e (item_name product) \<in> exclude_names cfg"
    unfolding passes_name_filter_iff by blast
  with False show ?thesis
    unfolding process_item_def Let_def by (simp split del: if_split)
qed

lemma process_item_passed:
  assumes "passes_name_filter e cfg product"
  shows "process_item e cfg product st =
     (let st0 = st\<lparr>total_checked := total_checked st + 1\<rparr>
      in case parse_approval_date e product of
           None \<Rightarrow> st0\<lparr>total_skipped := total_skipped st0 + 1\<rparr>
         | Some parsed \<Rightarrow>
             if times_passed_sec e (world st) parsed \<le> of_int (promo_threshold_sec cfg)
             then st0\<lparr>world := tick (world st)\<rparr>
             else if 0 \<le> duplicates_limit cfg
               \<and> duplicates_limit cfg
                  \<le> int (promoted_by_name st (normalize_name e (item_name product)))
             then st0\<lparr>world := tick (world st), total_skipped := total_skipped st + 1\<rparr>
             else promote_step e cfg product (normalize_name e (item_name product))
                    (st0\<lparr>world := tick (world st)\<rparr>))"
proof -
  from assms have a: "\<not> (include_names cfg \<noteq> {}
        \<and> normalize_name e (item_name product) \<notin> include_names cfg)"
    and b: "\<not> (include_names cfg = {} \<and> exclude_names cfg \<noteq> {}
        \<and> normalize_name e (item_name product) \<in> exclude_names cfg)"
    unfolding passes_name_filter_iff by blast+
  show ?thesis
    unfolding process_item_def Let_def times_passed_sec_def
    apply (simp only: a b if_False)
    apply (simp add: get_now_def tick_def split del: if_split
        cong: if_cong option.case_cong)
    done
qed

lemma process_item_invalid_date:
  "passes_name_filter e cfg product \<Longrightarrow> parse_approval_date e product = None \<Longrightarrow>
   process_item e cfg product st =
     st\<lparr>total_checked := total_checked st + 1, total_skipped := total_skipped st + 1\<rparr>"
  by (simp add: process_item_passed)

lemma process_item_too_young:
  "passes_name_filter e cfg product \<Longrightarrow> parse_approval_date e product = Some parsed \<Longrightarrow>
   times_passed_sec e (world st) parsed \<le> of_int (promo_threshold_sec cfg) \<Longrightarrow>
   process_item e cfg product st =
     st\<lparr>total_checked := total_checked st + 1, world := tick (world st)\<rparr>"
  by (simp add: process_item_passed)

lemma process_item_duplicate_limit:
  "passes_name_filter e cfg product \<Longrightarrow> parse_approval_date e product = Some parsed \<Longrightarrow>
   \<not> times_passed_sec e (world st) parsed \<le> of_int (promo_threshold_sec cfg) \<Longrightarrow>
   0 \<le> duplicates_limit cfg \<Longrightarrow>
   duplicates_limit cfg \<le> int (promoted_by_name st (normalize_name e (item_name product))) \<Longrightarrow>
   process_item e cfg product st =
     st\<lparr>total_checked := total_checked st + 1, total_skipped := total_skipped st + 1,
        world := tick (world st)\<rparr>"
  by (simp add: process_item_passed)

lemma process_item_promote:
  "passes_name_filter e cfg product \<Longrightarrow> parse_approval_date e product = Some parsed \<Longrightarrow>
   \<not> times_passed_sec e (world st) parsed \<le> of_int (promo_threshold_sec cfg) \<Longrightarrow>
   \<not> (0 \<le> duplicates_limit cfg
      \<and> duplicates_limit cfg \<le> int (promoted_by_name st (normalize_name e (item_name product)))) \<Longrightarrow>
   process_item e cfg product st =
     promote_step e cfg product (normalize_name e (item_name product))
       (st\<lparr>total_checked := total_checked st + 1, world := tick (world st)\<rparr>)"
  by (auto simp add: process_item_passed Let_def)

text \<open>
  The value compared with the threshold is the float of the elapsed time as the
  specification writes it, at the reading of the clock the listing takes.
\<close>

lemma times_passed_sec_spec:
  "times_passed_sec e w parsed =
     float_of e (spec_elapsed_sec (clock_us e (n_clock w)) (reading_us parsed)
                   (utcoffset_us parsed))"
  by (cases "utcoffset_us parsed")
     (simp_all add: times_passed_sec_def total_seconds_between_def spec_elapsed_sec_def
        get_now_def instant_us_def localize_utc_def)

lemma process_item_post: "item_post cfg st (process_item e cfg product st)"
proof (cases "passes_name_filter e cfg product")
  case False
  then show ?thesis by (simp add: process_item_filtered item_post_def outcomes_def)
next
  case pass: True
  show ?thesis
  proof (cases "parse_approval_date e product")
    case None
    with pass show ?thesis by (simp add: process_item_invalid_date item_post_def outcomes_def)
  next
    case (Some parsed)
    show ?thesis
    proof (cases "times_passed_sec e (world st) parsed \<le> of_int (promo_threshold_sec cfg)")
      case True
      from process_item_too_young [OF pass Some True] show ?thesis
        by (simp add: item_post_def outcomes_def tick_def)
    next
      case old: False
      let ?nm = "normalize_name e (item_name product)"
      show ?thesis
      proof (cases "0 \<le> duplicates_limit cfg
          \<and> duplicates_limit cfg \<le> int (promoted_by_name st ?nm)")
        case True
        then have "0 \<le> duplicates_limit cfg"
          "duplicates_limit cfg \<le> int (promoted_by_name st ?nm)" by simp_all
        from process_item_duplicate_limit [OF pass Some old this] show ?thesis
          by (simp add: item_post_def outcomes_def tick_def)
      next
        case False
        let ?st1 = "st\<lparr>total_checked := total_checked st + 1, world := tick (world st)\<rparr>"
        note eq = process_item_promote [OF pass Some old False]
        have post: "promote_step_post ?nm ?st1 (promote_step e cfg product ?nm ?st1)"
          by (rule promote_step_post)
        have "0 \<le> duplicates_limit cfg
            \<and> (\<forall>name. int (promoted_by_name st name) \<le> duplicates_limit cfg)
          \<longrightarrow> (\<forall>name. int (promoted_by_name (promote_step e cfg product ?nm ?st1) name)
                 \<le> duplicates_limit cfg)"
        proof (intro impI allI)
          fix name
          assume h: "0 \<le> duplicates_limit cfg
            \<and> (\<forall>name. int (promoted_by_name st name) \<le> duplicates_limit cfg)"
          with False have lt: "int (promoted_by_name st ?nm) < duplicates_limit cfg" by simp
          from post have "promoted_by_name (promote_step e cfg product ?nm ?st1) = promoted_by_name st
            \<or> promoted_by_name (promote_step e cfg product ?nm ?st1)
                = (promoted_by_name st)(?nm := promoted_by_name st ?nm + 1)"
            by (auto simp add: promote_step_post_def)
          then show "int (promoted_by_name (promote_step e cfg product ?nm ?st1) name)
                 \<le> duplicates_limit cfg"
            using h lt by (cases "name = ?nm") auto
        qed
        with post show ?thesis
          unfolding eq by (auto simp add: item_post_def promote_step_post_def outcomes_def tick_def)
      qed
    qed
  qed
qed

subsection \<open>The pages of a cycle\<close>

lemma process_items_post:
  "items_post cfg (length ps) st (process_items e cfg ps st)"
proof (induction ps arbitrary: st)
  case Nil
  then show ?case by (simp add: items_post_def)
next
  case (Cons p ps)
  from process_item_post [of cfg st e p] have post: "item_post cfg st (process_item e cfg p st)" .
  from Cons.IH [of "process_item e cfg p st"]
  have "items_post cfg (length ps) (process_item e cfg p st)
          (process_items e cfg ps (process_item e cfg p st))" .
  with post show ?case by (auto simp add: items_post_def item_post_def)
qed

lemma page_pause_fields [simp]:
  "cursor (snd (page_pause e cfg st)) = cursor st"
  "total_checked (snd (page_pause e cfg st)) = total_checked st"
  "total_promoted (snd (page_pause e cfg st)) = total_promoted st"
  "total_skipped (snd (page_pause e cfg st)) = total_skipped st"
  "total_errors (snd (page_pause e cfg st)) = total_errors st"
  "promoted_by_name (snd (page_pause e cfg st)) = promoted_by_name st"
  "rate_limiter (snd (page_pause e cfg st)) = rate_limiter st"
  "n_get_items (world (snd (page_pause e cfg st))) = n_get_items (world st)"
  by (simp_all add: page_pause_def random_delay_between_pages_sec_def time_sleep_def emit_def
      split: prod.split)

lemma outcomes_page_pause [simp]: "outcomes (snd (page_pause e cfg st)) = outcomes st"
  by (simp add: outcomes_def)

lemma cycle_pages_return:
  "fetch_attempts e page_max_retries (py_range page_max_retries) st = (Return_from_cycle, st1) \<Longrightarrow>
   cycle_pages (Suc fuel) e cfg st = Some (Fetch_failed, st1)"
  by simp

lemma cycle_pages_loop_ended:
  "fetch_attempts e page_max_retries (py_range page_max_retries) st = (Loop_ended, st1) \<Longrightarrow>
   cycle_pages (Suc fuel) e cfg st =
     Some (Fetch_failed, print_summary (st1\<lparr>total_errors := total_errors st1 + 1\<rparr>))"
  by simp

lemma cycle_pages_last:
  "fetch_attempts e page_max_retries (py_range page_max_retries) st = (Break page, st1) \<Longrightarrow>
   \<not> has_next_page (page_info page) \<Longrightarrow>
   cycle_pages (Suc fuel) e cfg st = Some (No_next_page, process_items e cfg (items page) st1)"
  by simp

lemma cycle_pages_exception:
  "fetch_attempts e page_max_retries (py_range page_max_retries) st = (Break page, st1) \<Longrightarrow>
   has_next_page (page_info page) \<Longrightarrow>
   page_pause e cfg (process_items e cfg (items page) st1) = (Some err, st3) \<Longrightarrow>
   cycle_pages (Suc fuel) e cfg st = Some (Exception_caught err, st3)"
  by (simp add: Let_def)

lemma cycle_pages_next:
  "fetch_attempts e page_max_retries (py_range page_max_retries) st = (Break page, st1) \<Longrightarrow>
   has_next_page (page_info page) \<Longrightarrow>
   page_pause e cfg (process_items e cfg (items page) st1) = (None, st3) \<Longrightarrow>
   cycle_pages (Suc fuel) e cfg st =
     cycle_pages fuel e cfg (st3\<lparr>cursor := end_cursor (page_info page)\<rparr>)"
  by (simp add: Let_def)

declare cycle_pages.simps(2) [simp del]

lemma cycle_pages_post:
  "cycle_pages fuel e cfg st = Some (ending, st') \<Longrightarrow> cycle_post e cfg st ending st'"
proof (induction fuel arbitrary: st)
  case 0
  then show ?case by simp
next
  case (Suc fuel)
  obtain flow st1 where f:
    "fetch_attempts e page_max_retries (py_range page_max_retries) st = (flow, st1)"
    by (cases "fetch_attempts e page_max_retries (py_range page_max_retries) st") auto
  from fetch_attempts_post [OF f] have fp: "fetch_post e st flow st1" .
  show ?case
  proof (cases flow)
    case Return_from_cycle
    with Suc.prems f have "ending = Fetch_failed" "st' = st1"
      by (simp_all add: cycle_pages_return)
    with fp Return_from_cycle show ?thesis
      by (simp add: cycle_post_def fetch_post_def outcomes_def)
  next
    case Loop_ended
    with Suc.prems f have "ending = Fetch_failed"
      "st' = print_summary (st1\<lparr>total_errors := total_errors st1 + 1\<rparr>)"
      by (simp_all add: cycle_pages_loop_ended)
    with fp Loop_ended show ?thesis
      by (simp add: cycle_post_def fetch_post_def outcomes_def print_summary_def emit_def)
  next
    case (Break page)
    with fp have fb: "cursor st1 = cursor st" "total_checked st1 = total_checked st"
      "outcomes st1 = outcomes st" "promoted_by_name st1 = promoted_by_name st"
      "n_get_items (world st) \<le> n_get_items (world st1)"
      "listings_fetched e (n_get_items (world st)) (n_get_items (world st1)) = length (items page)"
      "rl_config (rate_limiter st1) = rl_config (rate_limiter st)"
      by (simp_all add: fetch_post_def outcomes_def)
    define st2 where "st2 = process_items e cfg (items page) st1"
    from process_items_post [of cfg "items page" st1 e]
    have ip: "items_post cfg (length (items page)) st1 st2" by (simp add: st2_def)
    show ?thesis
    proof (cases "has_next_page (page_info page)")
      case False
      with Suc.prems f Break have "ending = No_next_page" "st' = st2"
        by (simp_all add: cycle_pages_last st2_def)
      with ip fb show ?thesis
        by (simp add: cycle_post_def items_post_def)
    next
      case True
      obtain x st3 where pp: "page_pause e cfg st2 = (x, st3)"
        by (cases "page_pause e cfg st2") auto
      then have s3: "st3 = snd (page_pause e cfg st2)" by simp
      show ?thesis
      proof (cases x)
        case (Some err)
        with Suc.prems f Break True pp have "ending = Exception_caught err" "st' = st3"
          by (simp_all add: cycle_pages_exception [where ?st3.0 = st3] st2_def)
        with ip fb show ?thesis
          by (simp add: cycle_post_def items_post_def s3)
      next
        case None
        let ?st4 = "st3\<lparr>cursor := end_cursor (page_info page)\<rparr>"
        from None Suc.prems f Break True pp
        have "cycle_pages fuel e cfg ?st4 = Some (ending, st')"
          by (simp add: cycle_pages_next [where ?st3.0 = st3] st2_def)
        from Suc.IH [OF this] have cp: "cycle_post e cfg ?st4 ending st'" .
        from cp have le: "n_get_items (world st2) \<le> n_get_items (world st')"
          by (simp add: cycle_post_def s3)
        from ip have n2: "n_get_items (world st2) = n_get_items (world st1)"
          by (simp add: items_post_def)
        have lf: "listings_fetched e (n_get_items (world st)) (n_get_items (world st'))
            = length (items page)
              + listings_fetched e (n_get_items (world st2)) (n_get_items (world st'))"
          using listings_fetched_concat [of "n_get_items (world st)" "n_get_items (world st1)"
              "n_get_items (world st')" e] fb(5,6) le n2
          by simp
        have o4: "outcomes ?st4 = outcomes st2" "total_checked ?st4 = total_checked st2"
          "rl_config (rate_limiter ?st4) = rl_config (rate_limiter st2)"
          "n_get_items (world ?st4) = n_get_items (world st2)"
          "promoted_by_name ?st4 = promoted_by_name st2"
          by (simp_all add: outcomes_def s3)
        from cp have cp': "total_checked st2 \<le> total_checked st'"
          "rl_config (rate_limiter st') = rl_config (rate_limiter st2)"
          "promo_delay_ok (rl_config (rate_limiter st2)) \<longrightarrow>
            outcomes st' + total_checked st2
            \<le> outcomes st2 + total_checked st' + (if ending = Fetch_failed then 1 else 0)"
          "total_checked st'
             = total_checked st2
               + listings_fetched e (n_get_items (world st2)) (n_get_items (world st'))"
          "0 \<le> duplicates_limit cfg
             \<and> (\<forall>name. int (promoted_by_name st2 name) \<le> duplicates_limit cfg)
           \<longrightarrow> (\<forall>name. int (promoted_by_name st' name) \<le> duplicates_limit cfg)"
          "ending = Fetch_failed \<longrightarrow>
            trace (world st') \<noteq> []
            \<and> last (trace (world st')) = Print_summary (total_checked st') (total_promoted st')"
          unfolding cycle_post_def o4 by blast+
        from ip have ip': "total_checked st2 = total_checked st1 + length (items page)"
          "rl_config (rate_limiter st2) = rl_config (rate_limiter st1)"
          "promo_delay_ok (rl_config (rate_limiter st1)) \<longrightarrow>
             outcomes st2 \<le> outcomes st1 + length (items page)"
          "0 \<le> duplicates_limit cfg
             \<and> (\<forall>name. int (promoted_by_name st1 name) \<le> duplicates_limit cfg)
           \<longrightarrow> (\<forall>name. int (promoted_by_name st2 name) \<le> duplicates_limit cfg)"
          unfolding items_post_def by blast+
        show ?thesis
          unfolding cycle_post_def
        proof (intro conjI)
          show "total_checked st \<le> total_checked st'" using cp'(1) ip'(1) fb(2) by simp
          show "rl_config (rate_limiter st') = rl_config (rate_limiter st)"
            using cp'(2) ip'(2) fb(7) by simp
          show "promo_delay_ok (rl_config (rate_limiter st)) \<longrightarrow>
            outcomes st' + total_checked st
            \<le> outcomes st + total_checked st' + (if ending = Fetch_failed then 1 else 0)"
            using cp'(3) ip'(1,2,3) fb(2,3,7) by auto
          show "n_get_items (world st) \<le> n_get_items (world st')" using fb(5) le n2 by simp
          show "total_checked st'
             = total_checked st
               + listings_fetched e (n_get_items (world st)) (n_get_items (world st'))"
            using cp'(4) ip'(1) fb(2) lf by simp
          show "0 \<le> duplicates_limit cfg
             \<and> (\<forall>name. int (promoted_by_name st name) \<le> duplicates_limit cfg)
           \<longrightarrow> (\<forall>name. int (promoted_by_name st' name) \<le> duplicates_limit cfg)"
            using cp'(5) ip'(4) fb(4) by simp
          show "ending = Fetch_failed \<longrightarrow>
            trace (world st') \<noteq> []
            \<and> last (trace (world st')) = Print_summary (total_checked st') (total_promoted st')"
            using cp'(6) .
        qed
      qed
    qed
  qed
qed

subsection \<open>The cycle\<close>

text \<open>
  What \<open>check_and_update_products\<close> adds to the loop: the handler's print and the last
  print. It changes no counter, and the summary is the last thing a cycle prints.
\<close>

lemma check_and_update_products_result:
  assumes "check_and_update_products fuel e cfg w = Some (ending, st)"
  shows "\<exists>st0. cycle_pages fuel e cfg (cycle_init cfg w) = Some (ending, st0)
     \<and> total_checked st = total_checked st0 \<and> total_promoted st = total_promoted st0
     \<and> total_skipped st = total_skipped st0 \<and> total_errors st = total_errors st0
     \<and> promoted_by_name st = promoted_by_name st0
     \<and> n_get_items (world st) = n_get_items (world st0)
     \<and> trace (world st) \<noteq> []
     \<and> last (trace (world st)) = Print_summary (total_checked st) (total_promoted st)"
proof (cases "cycle_pages fuel e cfg (cycle_init cfg w)")
  case None
  with assms show ?thesis by (simp add: check_and_update_products_def)
next
  case (Some r)
  obtain en st0 where r: "r = (en, st0)" by (cases r) auto
  from cycle_pages_post [of fuel e cfg "cycle_init cfg w" en st0] Some r
  have post: "cycle_post e cfg (cycle_init cfg w) en st0" by simp
  show ?thesis
  proof (cases en)
    case No_next_page
    with assms Some r have "ending = No_next_page" "st = print_summary st0"
      by (simp_all add: check_and_update_products_def)
    with Some r No_next_page show ?thesis by (simp add: print_summary_def emit_def)
  next
    case Fetch_failed
    with assms Some r have "ending = Fetch_failed" "st = st0"
      by (simp_all add: check_and_update_products_def)
    with Some r Fetch_failed post show ?thesis by (simp add: cycle_post_def)
  next
    case (Exception_caught err)
    with assms Some r have "ending = Exception_caught err"
      "st = print_summary (st0\<lparr>world := emit (Print_cycle_error err) (world st0)\<rparr>)"
      by (simp_all add: check_and_update_products_def)
    with Some r Exception_caught show ?thesis by (simp add: print_summary_def emit_def)
  qed
qed

text \<open>
  The state at the start of a turn of the page loop keeps the configuration of the rate
  limiter and the bound on the per-name counts.
\<close>

lemma after_turns_post:
  "after_turns n e cfg st = Some st' \<Longrightarrow>
   rl_config (rate_limiter st') = rl_config (rate_limiter st)
   \<and> (0 \<le> duplicates_limit cfg
        \<and> (\<forall>name. int (promoted_by_name st name) \<le> duplicates_limit cfg)
      \<longrightarrow> (\<forall>name. int (promoted_by_name st' name) \<le> duplicates_limit cfg))"
proof (induction n arbitrary: st)
  case 0
  then show ?case by simp
next
  case (Suc n)
  obtain flow st1 where f:
    "fetch_attempts e page_max_retries (py_range page_max_retries) st = (flow, st1)"
    by (cases "fetch_attempts e page_max_retries (py_range page_max_retries) st") auto
  from fetch_attempts_post [OF f] have fp: "fetch_post e st flow st1" .
  from Suc.prems f obtain page where flow: "flow = Break page"
    by (cases flow) simp_all
  define st2 where "st2 = process_items e cfg (items page) st1"
  from process_items_post [of cfg "items page" st1 e]
  have ip: "items_post cfg (length (items page)) st1 st2" by (simp add: st2_def)
  obtain x st3 where pp: "page_pause e cfg st2 = (x, st3)"
    by (cases "page_pause e cfg st2") auto
  then have s3: "st3 = snd (page_pause e cfg st2)" by simp
  from Suc.prems f flow pp
  have rec: "after_turns n e cfg (st3\<lparr>cursor := end_cursor (page_info page)\<rparr>) = Some st'"
    by (simp add: st2_def split: if_splits option.splits)
  note IH = Suc.IH [OF rec]
  from fp flow have "promoted_by_name st1 = promoted_by_name st"
    "rl_config (rate_limiter st1) = rl_config (rate_limiter st)"
    by (simp_all add: fetch_post_def)
  moreover from ip have "rl_config (rate_limiter st2) = rl_config (rate_limiter st1)"
    "0 \<le> duplicates_limit cfg
        \<and> (\<forall>name. int (promoted_by_name st1 name) \<le> duplicates_limit cfg)
      \<longrightarrow> (\<forall>name. int (promoted_by_name st2 name) \<le> duplicates_limit cfg)"
    unfolding items_post_def by blast+
  moreover have "promoted_by_name st3 = promoted_by_name st2"
    "rate_limiter st3 = rate_limiter st2"
    by (simp_all add: s3)
  ultimately show ?case using IH by simp
qed

text \<open>A cycle whose first \<open>n\<close> turns went through continues with the turn after them.\<close>

lemma cycle_pages_after_turns:
  "after_turns n e cfg st = Some st' \<Longrightarrow>
   cycle_pages (n + fuel) e cfg st = cycle_pages fuel e cfg st'"
proof (induction n arbitrary: st)
  case 0
  then show ?case by simp
next
  case (Suc n)
  obtain flow st1 where f:
    "fetch_attempts e page_max_retries (py_range page_max_retries) st = (flow, st1)"
    by (cases "fetch_attempts e page_max_retries (py_range page_max_retries) st") auto
  from Suc.prems f obtain page where flow: "flow = Break page"
    by (cases flow) simp_all
  from Suc.prems f flow have h: "has_next_page (page_info page)"
    by (simp split: if_splits)
  obtain x st3 where pp: "page_pause e cfg (process_items e cfg (items page) st1) = (x, st3)"
    by (cases "page_pause e cfg (process_items e cfg (items page) st1)") auto
  from Suc.prems f flow h pp have x: "x = None"
    and rec: "after_turns n e cfg (st3\<lparr>cursor := end_cursor (page_info page)\<rparr>) = Some st'"
    by (simp_all split: option.splits)
  from f flow have f': "fetch_attempts e page_max_retries (py_range page_max_retries) st
      = (Break page, st1)" by simp
  from pp x have pp': "page_pause e cfg (process_items e cfg (items page) st1) = (None, st3)"
    by simp
  have "cycle_pages (Suc n + fuel) e cfg st
      = cycle_pages (n + fuel) e cfg (st3\<lparr>cursor := end_cursor (page_info page)\<rparr>)"
    using cycle_pages_next [OF f' h pp', of "n + fuel"] by simp
  with Suc.IH [OF rec] show ?case by simp
qed

text \<open>Values of the example inputs, and the definitions a run of a cycle unfolds.\<close>

lemma ascii_gem [simp]: "ascii_lower (ascii_strip ''Gem x100'') = ''gem x100''"
  by code_simp

lemma ascii_gem_spaced [simp]: "ascii_lower (ascii_strip '' GEM X100 '') = ''gem x100''"
  by code_simp

lemma uniform_example [simp]: "uniform 1 2 (1 / 2) = 3 / 2"
proof -
  have "\<lfloor>1 / 2 :: rat\<rfloor> = 0" by (simp add: floor_eq_iff)
  then show ?thesis by (simp add: uniform_def)
qed

lemma uniform_same [simp]: "uniform a a raw = a"
  by (simp add: uniform_def)

lemmas cycle_eval_defs = check_and_update_products_def cycle_pages.simps fetch_attempts.simps
  process_item_def promote_step_def page_pause_def time_sleep_def sleep_limit_def
  cycle_init_def page_max_retries_def print_summary_def
  random_delay_between_pages_sec_def random_delay_between_promos_sec_def
  parse_approval_date_def localize_utc_def instant_us_def total_seconds_between_def
  normalize_name_def example_page_def Let_def

lemma example_cycle_run:
  "\<exists>st. check_and_update_products 1 example_env example_config world_init
          = Some (No_next_page, st)
     \<and> total_checked st = 2 \<and> total_promoted st = 1 \<and> total_skipped st = 1
     \<and> total_errors st = 0 \<and> promoted_by_name st ''gem x100'' = 1
     \<and> trace (world st) =
         [Get_items None, Get_item_priority_statuses ''a'',
          Increase_item_priority_status ''a'' ''p1'', Sleep (3 / 2), Print_summary 2 1]
     \<and> n_get_items (world st) = 1"
  by (simp add: cycle_eval_defs eval_defs)

text \<open>
  C1: with a duplicate limit \<open>K \<ge> 0\<close>, \<open>promoted_by_name[name]\<close> never exceeds \<open>K\<close>, for
  every name: in the state a cycle ends with; in the state every turn of the page loop
  starts in, after the fetch of that turn and after any number of listings processed from
  there; and every single listing keeps the bound. Once the count of a name has reached
  \<open>K\<close>, a listing whose normalized name (\<open>strip().lower()\<close>, whatever these two do on the
  text) is that name and that passes the name filter and the age check is skipped: the
  skip counter goes up by one, and the world only changes by the reading of the clock,
  so no remote call is made.
\<close>

theorem duplicate_limit_invariant:
  assumes "0 \<le> duplicates_limit cfg"
  shows "(\<forall>fuel w ending st name.
            check_and_update_products fuel e cfg w = Some (ending, st) \<longrightarrow>
            int (promoted_by_name st name) \<le> duplicates_limit cfg)
    \<and> (\<forall>n w st flow st1 products name.
          after_turns n e cfg (cycle_init cfg w) = Some st
          \<and> fetch_attempts e page_max_retries (py_range page_max_retries) st = (flow, st1) \<longrightarrow>
          int (promoted_by_name st name) \<le> duplicates_limit cfg
          \<and> int (promoted_by_name (process_items e cfg products st1) name)
              \<le> duplicates_limit cfg)
    \<and> (\<forall>(st::cycle) product.
          (\<forall>name. int (promoted_by_name st name) \<le> duplicates_limit cfg) \<longrightarrow>
          (\<forall>name. int (promoted_by_name (process_item e cfg product st) name)
                    \<le> duplicates_limit cfg))
    \<and> (\<forall>(st::cycle) product parsed.
          passes_name_filter e cfg product \<and> parse_approval_date e product = Some parsed
          \<and> \<not> float_of e (spec_elapsed_sec (clock_us e (n_clock (world st)))
                            (reading_us parsed) (utcoffset_us parsed))
                \<le> of_int (promo_threshold_sec cfg)
          \<and> duplicates_limit cfg
               \<le> int (promoted_by_name st (normalize_name e (item_name product))) \<longrightarrow>
          process_item e cfg product st =
            st\<lparr>total_checked := total_checked st + 1,
               total_skipped := total_skipped st + 1, world := tick (world st)\<rparr>)"
proof (intro conjI allI impI)
  fix fuel w ending st name
  assume run: "check_and_update_products fuel e cfg w = Some (ending, st)"
  from check_and_update_products_result [OF run] obtain st0 where
    st0: "cycle_pages fuel e cfg (cycle_init cfg w) = Some (ending, st0)"
    "promoted_by_name st = promoted_by_name st0"
    by blast
  from cycle_pages_post [OF st0(1)] assms
  have "\<forall>name. int (promoted_by_name st0 name) \<le> duplicates_limit cfg"
    by (simp add: cycle_post_def cycle_init_def)
  with st0(2) show "int (promoted_by_name st name) \<le> duplicates_limit cfg" by simp
next
  fix n w st flow st1 products name
  assume h: "after_turns n e cfg (cycle_init cfg w) = Some st
          \<and> fetch_attempts e page_max_retries (py_range page_max_retries) st = (flow, st1)"
  from h after_turns_post [of n e cfg "cycle_init cfg w" st] assms
  have inv: "\<forall>name. int (promoted_by_name st name) \<le> duplicates_limit cfg"
    by (simp add: cycle_init_def)
  then show "int (promoted_by_name st name) \<le> duplicates_limit cfg" by simp
  from h fetch_attempts_post [of e page_max_retries "py_range page_max_retries" st flow st1]
  have "promoted_by_name st1 = promoted_by_name st" by (simp add: fetch_post_def)
  with inv process_items_post [of cfg products st1 e] assms
  show "int (promoted_by_name (process_items e cfg products st1) name) \<le> duplicates_limit cfg"
    by (simp add: items_post_def)
next
  fix st :: cycle and product name
  assume "\<forall>name. int (promoted_by_name st name) \<le> duplicates_limit cfg"
  with process_item_post [of cfg st e product] assms
  show "int (promoted_by_name (process_item e cfg product st) name) \<le> duplicates_limit cfg"
    by (simp add: item_post_def)
next
  fix st :: cycle and product parsed
  assume h: "passes_name_filter e cfg product \<and> parse_approval_date e product = Some parsed
          \<and> \<not> float_of e (spec_elapsed_sec (clock_us e (n_clock (world st)))
                            (reading_us parsed) (utcoffset_us parsed))
                \<le> of_int (promo_threshold_sec cfg)
          \<and> duplicates_limit cfg
               \<le> int (promoted_by_name st (normalize_name e (item_name product)))"
  then have "\<not> times_passed_sec e (world st) parsed \<le> of_int (promo_threshold_sec cfg)"
    by (simp add: times_passed_sec_spec)
  with h show "process_item e cfg product st =
            st\<lparr>total_checked := total_checked st + 1,
               total_skipped := total_skipped st + 1, world := tick (world st)\<rparr>"
    using assms by (intro process_item_duplicate_limit [of e cfg product parsed st]) simp_all
qed

theorem duplicate_limit_invariant_witness:
  "0 \<le> duplicates_limit example_config
   \<and> (\<exists>st. check_and_update_products 1 example_env example_config world_init
              = Some (No_next_page, st)
         \<and> total_promoted st = 1 \<and> total_skipped st = 1
         \<and> promoted_by_name st ''gem x100'' = 1
         \<and> int (promoted_by_name st ''gem x100'') \<le> duplicates_limit example_config
         \<and> promote_calls (trace (world st)) = 1)
   \<and> (\<exists>st1. st1 = process_item example_env example_config (gem ''a'')
                    (snd (fetch_attempts example_env page_max_retries
                            (py_range page_max_retries)
                            (cycle_init example_config world_init)))
         \<and> promoted_by_name st1 ''gem x100'' = 1
         \<and> item_name (gem ''a'') \<noteq> item_name ((gem ''b'')\<lparr>item_name := Some '' GEM X100 ''\<rparr>)
         \<and> process_item example_env example_config
               ((gem ''b'')\<lparr>item_name := Some '' GEM X100 ''\<rparr>) st1
             = st1\<lparr>total_checked := 2, total_skipped := 1, world := tick (world st1)\<rparr>)"
proof -
  let ?e = example_env
  let ?cfg = example_config
  let ?b = "(gem ''b'')\<lparr>item_name := Some '' GEM X100 ''\<rparr>"
  have h: "0 \<le> duplicates_limit ?cfg" by (simp add: example_config_def)
  from example_cycle_run obtain st where
    run: "check_and_update_products 1 ?e ?cfg world_init = Some (No_next_page, st)"
    and vals: "total_promoted st = 1" "total_skipped st = 1"
      "promoted_by_name st ''gem x100'' = 1"
      "trace (world st) =
         [Get_items None, Get_item_priority_statuses ''a'',
          Increase_item_priority_status ''a'' ''p1'', Sleep (3 / 2), Print_summary 2 1]"
    by blast
  note inst = duplicate_limit_invariant [OF h, of ?e]
  from inst run
  have le: "int (promoted_by_name st ''gem x100'') \<le> duplicates_limit ?cfg"
    by blast
  have calls: "promote_calls (trace (world st)) = 1"
    by (simp add: vals promote_calls_def is_promote_call_def)
  define st1 where "st1 = process_item ?e ?cfg (gem ''a'')
      (snd (fetch_attempts ?e page_max_retries (py_range page_max_retries)
              (cycle_init ?cfg world_init)))"
  have v1: "promoted_by_name st1 ''gem x100'' = 1" "total_checked st1 = 1"
    "total_skipped st1 = 0" "n_clock (world st1) = 1"
    unfolding st1_def by (simp_all add: cycle_eval_defs eval_defs)
  have hyp: "passes_name_filter ?e ?cfg ?b
      \<and> parse_approval_date ?e ?b = Some \<lparr>reading_us = 0, utcoffset_us = None\<rparr>
      \<and> \<not> float_of ?e (spec_elapsed_sec (clock_us ?e (n_clock (world st1)))
                (reading_us \<lparr>reading_us = 0, utcoffset_us = None\<rparr>)
                (utcoffset_us \<lparr>reading_us = 0, utcoffset_us = None\<rparr>))
            \<le> of_int (promo_threshold_sec ?cfg)
      \<and> duplicates_limit ?cfg
           \<le> int (promoted_by_name st1 (normalize_name ?e (item_name ?b)))"
    using v1(1)
    by (simp add: passes_name_filter_def parse_approval_date_def normalize_name_def
        spec_elapsed_sec_def example_env_def example_config_def gem_def)
  from inst hyp
  have "process_item ?e ?cfg ?b st1 =
      st1\<lparr>total_checked := total_checked st1 + 1, total_skipped := total_skipped st1 + 1,
          world := tick (world st1)\<rparr>"
    by blast
  then have skip: "process_item ?e ?cfg ?b st1 =
      st1\<lparr>total_checked := 2, total_skipped := 1, world := tick (world st1)\<rparr>"
    by (simp add: v1)
  have ne: "item_name (gem ''a'') \<noteq> item_name ?b" by (simp add: gem_def)
  from h run vals(1,2,3) le calls v1(1) ne skip show ?thesis
    unfolding st1_def [symmetric] by blast
qed




text \<open>
  The case the amended C4 leaves out. With a pause between promotions of 1e10 seconds the
  \<open>time.sleep\<close> of line 715 raises after the listing has been counted as promoted, and
  the handler of line 727 counts the same listing as an error: two listings checked, one
  of them promoted and errored, the other skipped.
\<close>

lemma promotion_pause_overflow:
  "(case check_and_update_products 1 example_env long_promo_pause_config world_init of
      None \<Rightarrow> False
    | Some (ending, st) \<Rightarrow>
        ending = No_next_page \<and> total_checked st = 2 \<and> total_promoted st = 1
        \<and> total_skipped st = 1 \<and> total_errors st = 1
        \<and> \<not> promo_delay_ok long_promo_pause_config)"
  by (simp add: cycle_eval_defs eval_defs long_promo_pause_config_def promo_delay_ok_def)

text \<open>
  C5 on the code: an exception that reaches the handler of line 741 is printed, and the
  summary follows, so the cycle completes and reports; but no counter records the
  exception. With a pause between pages of 1e10 seconds and a first page that announces
  a next one, the \<open>time.sleep\<close> of line 737 raises \<open>OverflowError\<close> after the two listings
  of the page (one promoted, one skipped); the cycle ends with \<open>total_errors = 0\<close>, where
  the handlers of lines 595, 606, 615 and 729 each add one.
\<close>

theorem cycle_exception_not_counted:
  "(case check_and_update_products (Suc fuel) paged_env long_page_pause_config world_init of
      None \<Rightarrow> False
    | Some (ending, st) \<Rightarrow>
        ending = Exception_caught overflow_msg
        \<and> total_checked st = 2 \<and> total_promoted st = 1 \<and> total_skipped st = 1
        \<and> total_errors st = 0
        \<and> trace (world st) =
            [Get_items None, Get_item_priority_statuses ''a'',
             Increase_item_priority_status ''a'' ''p1'', Sleep (3 / 2),
             Print_cycle_error overflow_msg, Print_summary 2 1])"
  by (simp add: cycle_eval_defs eval_defs long_page_pause_config_def paged_env_def
      first_page_def)



text \<open>
  A listing of the same page that is older than the threshold is not stopped by the age
  check: it is promoted.
\<close>

lemma old_listing_promoted:
  "spec_elapsed_sec 10000000000 0 None = 10000
   \<and> total_promoted (process_item example_env example_config (gem ''a'')
                       (cycle_init example_config world_init)) = 1"
  by (simp add: cycle_eval_defs eval_defs spec_elapsed_sec_def)

lemma py_range_page_max_retries: "py_range page_max_retries = [0..<5]"
  by (simp add: py_range_def page_max_retries_def)

text \<open>
  The attempts of the page loop that are throttled and followed by another attempt: each
  is a call of \<open>get_items\<close>, one more consecutive error, one random draw and the countdown
  of the wait; the counters of the cycle stay as they are.
\<close>

lemma fetch_attempts_throttled_prefix:
  "i + k < m \<Longrightarrow> mr = int m \<Longrightarrow>
   (\<forall>j < k. fetch_throttled (get_items_reply e (n_get_items (world st) + j))) \<Longrightarrow>
   \<exists>st2. fetch_attempts e mr [i..<m] st = fetch_attempts e mr [i + k..<m] st2
     \<and> cursor st2 = cursor st \<and> total_checked st2 = total_checked st
     \<and> total_promoted st2 = total_promoted st \<and> total_skipped st2 = total_skipped st
     \<and> total_errors st2 = total_errors st \<and> promoted_by_name st2 = promoted_by_name st
     \<and> consecutive_errors (rate_limiter st2) = consecutive_errors (rate_limiter st) + k
     \<and> n_get_items (world st2) = n_get_items (world st) + k
     \<and> n_random (world st2) = n_random (world st) + k
     \<and> trace (world st2)
         = trace (world st)
           @ fetch_retry_events e (cursor st) (consecutive_errors (rate_limiter st))
               (n_random (world st)) k"
proof (induction k arbitrary: i st)
  case 0
  show ?case by (rule exI [of _ st]) simp
next
  case (Suc k)
  let ?n = "n_get_items (world st)"
  from Suc.prems have range: "[i..<m] = i # [Suc i..<m]" by (simp add: upt_conv_Cons)
  from Suc.prems have "fetch_throttled (get_items_reply e (?n + 0))"
    by (metis zero_less_Suc)
  then obtain msg where msg: "get_items_reply e ?n = Raises msg"
    "contains ''429'' msg \<or> contains ''TOO_MANY_REQUESTS'' msg \<or> contains ''Too many attempts'' msg"
    by (auto simp add: fetch_throttled_def split: outcome.splits)
  note step = fetch_attempts_throttled [OF msg, of mr i "[Suc i..<m]"]
  define st2 where "st2 = st\<lparr>rate_limiter := (rate_limiter st)
        \<lparr>consecutive_errors := Suc (consecutive_errors (rate_limiter st)),
         last_error_time := Some \<lparr>reading_us = clock_us e (n_clock (world st)),
                                   utcoffset_us = Some 0\<rparr>\<rparr>,
      world := countdown_sleep
        (spec_throttled_wait (Suc (consecutive_errors (rate_limiter st)))
           (random_raw e (n_random (world st)) mod 11))
        ((world st)\<lparr>trace := trace (world st) @ [Get_items (cursor st)],
           n_get_items := Suc ?n, n_clock := Suc (n_clock (world st)),
           n_random := Suc (n_random (world st))\<rparr>)\<rparr>"
  have v2: "n_get_items (world st2) = Suc ?n" "cursor st2 = cursor st"
    "total_checked st2 = total_checked st" "total_promoted st2 = total_promoted st"
    "total_skipped st2 = total_skipped st" "total_errors st2 = total_errors st"
    "promoted_by_name st2 = promoted_by_name st"
    "consecutive_errors (rate_limiter st2) = Suc (consecutive_errors (rate_limiter st))"
    "n_random (world st2) = Suc (n_random (world st))"
    "trace (world st2) = trace (world st) @ Get_items (cursor st)
       # countdown (py_int (spec_throttled_wait (Suc (consecutive_errors (rate_limiter st)))
           (random_raw e (n_random (world st)) mod 11)))"
    by (simp_all add: st2_def countdown_sleep_def)
  have "int i < mr - 1" using Suc.prems by simp
  then have eq: "fetch_attempts e mr [i..<m] st = fetch_attempts e mr [Suc i..<m] st2"
    unfolding range step backoff_eq by (simp add: st2_def)
  have a: "Suc i + k < m" using Suc.prems by simp
  have b: "\<forall>j < k. fetch_throttled (get_items_reply e (n_get_items (world st2) + j))"
  proof (intro allI impI)
    fix j assume "j < k"
    then have "Suc j < Suc k" by simp
    with Suc.prems(3) have "fetch_throttled (get_items_reply e (?n + Suc j))" by blast
    then show "fetch_throttled (get_items_reply e (n_get_items (world st2) + j))"
      by (simp add: v2)
  qed
  from Suc.IH [OF a Suc.prems(2) b] obtain st3 where
    st3: "fetch_attempts e mr [Suc i..<m] st2 = fetch_attempts e mr [Suc i + k..<m] st3"
      "cursor st3 = cursor st2" "total_checked st3 = total_checked st2"
      "total_promoted st3 = total_promoted st2" "total_skipped st3 = total_skipped st2"
      "total_errors st3 = total_errors st2" "promoted_by_name st3 = promoted_by_name st2"
      "consecutive_errors (rate_limiter st3) = consecutive_errors (rate_limiter st2) + k"
      "n_get_items (world st3) = n_get_items (world st2) + k"
      "n_random (world st3) = n_random (world st2) + k"
      "trace (world st3)
         = trace (world st2)
           @ fetch_retry_events e (cursor st2) (consecutive_errors (rate_limiter st2))
               (n_random (world st2)) k"
    by blast
  show ?case
    by (rule exI [of _ st3]) (simp add: eq st3 v2)
qed

text \<open>The last attempt of the page loop, throttled: no wait follows it.\<close>

lemma fetch_attempts_last_throttled:
  assumes "fetch_throttled (get_items_reply e (n_get_items (world st)))"
    and "mr = int (Suc i)"
  shows "\<exists>st'. fetch_attempts e mr [i..<Suc i] st = (Return_from_cycle, st')
     \<and> total_errors st' = total_errors st + 1 \<and> total_checked st' = total_checked st
     \<and> total_promoted st' = total_promoted st \<and> total_skipped st' = total_skipped st
     \<and> promoted_by_name st' = promoted_by_name st
     \<and> consecutive_errors (rate_limiter st') = consecutive_errors (rate_limiter st) + 1
     \<and> n_get_items (world st') = n_get_items (world st) + 1
     \<and> trace (world st')
         = trace (world st)
           @ [Get_items (cursor st), Print_summary (total_checked st) (total_promoted st)]"
proof -
  from assms(1) obtain msg where msg: "get_items_reply e (n_get_items (world st)) = Raises msg"
    "contains ''429'' msg \<or> contains ''TOO_MANY_REQUESTS'' msg \<or> contains ''Too many attempts'' msg"
    by (auto simp add: fetch_throttled_def split: outcome.splits)
  have range: "[i..<Suc i] = [i]" by simp
  have "\<not> int i < mr - 1" using assms(2) by simp
  then show ?thesis
    unfolding range fetch_attempts_throttled [OF msg, of mr i "[]"] backoff_eq
    by (simp add: print_summary_def emit_def)
qed

text \<open>An attempt of the page loop that fails with another error.\<close>

lemma fetch_attempts_other_now:
  assumes "fetch_other_error (get_items_reply e (n_get_items (world st)))"
    and "i < m"
  shows "\<exists>st'. fetch_attempts e mr [i..<m] st = (Return_from_cycle, st')
     \<and> total_errors st' = total_errors st + 1 \<and> total_checked st' = total_checked st
     \<and> total_promoted st' = total_promoted st \<and> total_skipped st' = total_skipped st
     \<and> promoted_by_name st' = promoted_by_name st
     \<and> consecutive_errors (rate_limiter st') = consecutive_errors (rate_limiter st)
     \<and> n_get_items (world st') = n_get_items (world st) + 1
     \<and> trace (world st')
         = trace (world st)
           @ [Get_items (cursor st), Print_summary (total_checked st) (total_promoted st)]"
proof -
  from assms(1) obtain msg where msg: "get_items_reply e (n_get_items (world st)) = Raises msg"
    "\<not> (contains ''429'' msg \<or> contains ''TOO_MANY_REQUESTS'' msg
        \<or> contains ''Too many attempts'' msg)"
    by (auto simp add: fetch_other_error_def split: outcome.splits)
  from assms(2) have range: "[i..<m] = i # [Suc i..<m]" by (simp add: upt_conv_Cons)
  show ?thesis
    unfolding range fetch_attempts_other_error [OF msg]
    by (simp add: print_summary_def emit_def)
qed

lemma countdown_backoff_not_empty:
  "countdown (py_int (spec_throttled_wait (Suc n) j)) \<noteq> []"
proof -
  define k where "k = min (Suc n) 5"
  define x where "x = min (5 * 2 ^ k + int j) (120::int)"
  have "1 \<le> k" by (simp add: k_def)
  then have "(2::int) ^ 1 \<le> 2 ^ k" by (rule power_increasing) simp
  then have "(2::int) \<le> 2 ^ k" by (simp only: power_one_right)
  moreover have "0 \<le> int j" by simp
  ultimately have "10 \<le> 5 * (2::int) ^ k + int j" by linarith
  then have pos: "0 < x" by (simp add: x_def)
  have "spec_throttled_wait (Suc n) j = of_int x"
    by (simp only: spec_throttled_wait_def x_def k_def)
  with pos have "py_int (spec_throttled_wait (Suc n) j) = x"
    by (simp add: py_int_def)
  with pos show ?thesis by (subst countdown.simps) simp
qed

text \<open>
  C6: take the turn of the page loop that starts in a state \<open>st\<close>, the state \<open>n\<close> earlier
  pages of the cycle left. When the first \<open>k\<close> attempts at the page are throttled and the
  next one fails with another error, or is the fifth and throttled too, then the page
  loop has called \<open>get_items\<close> \<open>k + 1\<close> times, with the countdown of a throttled wait
  (never empty) after each of the first \<open>k\<close> calls and none after the last, and the
  cycle ends there: \<open>check_and_update_products\<close> returns, the handler of line 741 has
  not run, the error counter is one more than in \<open>st\<close>, the other counters and the
  per-name counts are those of \<open>st\<close>, and the summary with the counts of \<open>st\<close> is the
  last thing printed.
\<close>

theorem page_fetch_failure_ends_cycle:
  assumes "after_turns n e cfg (cycle_init cfg w) = Some st"
    and "k < 5"
    and "\<forall>j < k. fetch_throttled (get_items_reply e (n_get_items (world st) + j))"
    and "fetch_other_error (get_items_reply e (n_get_items (world st) + k))
       \<or> k = 4 \<and> fetch_throttled (get_items_reply e (n_get_items (world st) + k))"
  shows "\<exists>st'. check_and_update_products (n + Suc fuel) e cfg w = Some (Fetch_failed, st')
     \<and> total_errors st' = total_errors st + 1
     \<and> total_checked st' = total_checked st \<and> total_promoted st' = total_promoted st
     \<and> total_skipped st' = total_skipped st
     \<and> promoted_by_name st' = promoted_by_name st
     \<and> n_get_items (world st') = n_get_items (world st) + k + 1
     \<and> trace (world st')
         = trace (world st)
           @ fetch_retry_events e (cursor st) (consecutive_errors (rate_limiter st))
               (n_random (world st)) k
           @ [Get_items (cursor st), Print_summary (total_checked st) (total_promoted st)]
     \<and> (\<forall>errs jitter. countdown (py_int (spec_throttled_wait (Suc errs) jitter)) \<noteq> [])"
proof -
  have m: "page_max_retries = int 5" by (simp add: page_max_retries_def)
  from assms(2) have k: "0 + k < 5" by simp
  from fetch_attempts_throttled_prefix [OF k m assms(3)] obtain st2 where
    st2: "fetch_attempts e page_max_retries [0..<5] st
            = fetch_attempts e page_max_retries [0 + k..<5] st2"
      "cursor st2 = cursor st" "total_checked st2 = total_checked st"
      "total_promoted st2 = total_promoted st" "total_skipped st2 = total_skipped st"
      "total_errors st2 = total_errors st" "promoted_by_name st2 = promoted_by_name st"
      "n_get_items (world st2) = n_get_items (world st) + k"
      "trace (world st2)
         = trace (world st)
           @ fetch_retry_events e (cursor st) (consecutive_errors (rate_limiter st))
               (n_random (world st)) k"
    by blast
  have "\<exists>st'. fetch_attempts e page_max_retries [k..<5] st2 = (Return_from_cycle, st')
     \<and> total_errors st' = total_errors st2 + 1 \<and> total_checked st' = total_checked st2
     \<and> total_promoted st' = total_promoted st2 \<and> total_skipped st' = total_skipped st2
     \<and> promoted_by_name st' = promoted_by_name st2
     \<and> n_get_items (world st') = n_get_items (world st2) + 1
     \<and> trace (world st')
         = trace (world st2)
           @ [Get_items (cursor st2), Print_summary (total_checked st2) (total_promoted st2)]"
    using assms(4)
  proof
    assume "fetch_other_error (get_items_reply e (n_get_items (world st) + k))"
    then have "fetch_other_error (get_items_reply e (n_get_items (world st2)))"
      by (simp add: st2)
    from fetch_attempts_other_now [OF this assms(2), of page_max_retries] show ?thesis
      by blast
  next
    assume h: "k = 4 \<and> fetch_throttled (get_items_reply e (n_get_items (world st) + k))"
    then have "fetch_throttled (get_items_reply e (n_get_items (world st) + k))" by blast
    then have t: "fetch_throttled (get_items_reply e (n_get_items (world st2)))"
      by (simp only: st2(8))
    have m': "page_max_retries = int (Suc 4)" by (simp add: page_max_retries_def)
    from h have range: "[k..<5] = [4..<Suc 4]" by simp
    from fetch_attempts_last_throttled [OF t m'] show ?thesis
      unfolding range by blast
  qed
  then obtain st' where
    st': "fetch_attempts e page_max_retries [k..<5] st2 = (Return_from_cycle, st')"
      "total_errors st' = total_errors st2 + 1" "total_checked st' = total_checked st2"
      "total_promoted st' = total_promoted st2" "total_skipped st' = total_skipped st2"
      "promoted_by_name st' = promoted_by_name st2"
      "n_get_items (world st') = n_get_items (world st2) + 1"
      "trace (world st')
         = trace (world st2)
           @ [Get_items (cursor st2), Print_summary (total_checked st2) (total_promoted st2)]"
    by blast
  from st2(1) st'(1)
  have f: "fetch_attempts e page_max_retries (py_range page_max_retries) st
      = (Return_from_cycle, st')"
    by (simp add: py_range_page_max_retries)
  have "cycle_pages (n + Suc fuel) e cfg (cycle_init cfg w) = cycle_pages (Suc fuel) e cfg st"
    by (rule cycle_pages_after_turns [OF assms(1)])
  with cycle_pages_return [OF f, of fuel cfg]
  have "cycle_pages (n + Suc fuel) e cfg (cycle_init cfg w) = Some (Fetch_failed, st')"
    by (simp only:)
  then have "check_and_update_products (n + Suc fuel) e cfg w = Some (Fetch_failed, st')"
    unfolding check_and_update_products_def by (simp only: option.case prod.case ending.case)
  then have run: "check_and_update_products (Suc (n + fuel)) e cfg w = Some (Fetch_failed, st')"
    by simp
  show ?thesis
    by (rule exI [of _ st']) (simp add: run st' st2 countdown_backoff_not_empty)
qed

text \<open>
  Scenario E: the first page is processed (one listing promoted, one skipped), the fetch
  of the second page is throttled five times, with waits of 10, 20, 40 and 80 seconds
  after the first four.
\<close>

lemma scenario_e_retries:
  "fetch_retry_events throttled_second_page_env (Some ''c1'') 0 (Suc 0) 4
   = Get_items (Some ''c1'') # replicate 2 (Sleep 5)
     @ Get_items (Some ''c1'') # replicate 4 (Sleep 5)
     @ Get_items (Some ''c1'') # replicate 8 (Sleep 5)
     @ Get_items (Some ''c1'') # replicate 16 (Sleep 5)"
proof -
  have n4: "(4::nat) = Suc (Suc (Suc (Suc 0)))" by simp
  have four: "fetch_retry_events throttled_second_page_env (Some ''c1'') 0 (Suc 0) 4
      = fetch_retry_events throttled_second_page_env (Some ''c1'') 0 (Suc 0)
          (Suc (Suc (Suc (Suc 0))))"
    by (subst n4) (rule refl)
  have waits: "py_int (spec_throttled_wait (Suc 0) 0) = 10"
    "py_int (spec_throttled_wait (Suc (Suc 0)) 0) = 20"
    "py_int (spec_throttled_wait (Suc (Suc (Suc 0))) 0) = 40"
    "py_int (spec_throttled_wait (Suc (Suc (Suc (Suc 0)))) 0) = 80"
    by (simp_all add: spec_throttled_wait_def py_int_def)
  have c: "countdown 10 = replicate 2 (Sleep 5)" "countdown 20 = replicate 4 (Sleep 5)"
    "countdown 40 = replicate 8 (Sleep 5)" "countdown 80 = replicate 16 (Sleep 5)"
    by (simp_all add: countdown.simps eval_nat_numeral)
  have r: "random_raw throttled_second_page_env = (\<lambda>k. 0)"
    by (simp add: throttled_second_page_env_def)
  show ?thesis
    unfolding four fetch_retry_events.simps r
    by (simp add: waits c)
qed

theorem page_fetch_failure_ends_cycle_witness:
  "\<exists>st. check_and_update_products (Suc (Suc 0)) throttled_second_page_env example_config
            world_init = Some (Fetch_failed, st)
     \<and> total_checked st = 2 \<and> total_promoted st = 1 \<and> total_skipped st = 1
     \<and> total_errors st = 1 \<and> n_get_items (world st) = 6
     \<and> trace (world st) =
         [Get_items None, Get_item_priority_statuses ''a'',
          Increase_item_priority_status ''a'' ''p1'', Sleep (3 / 2)]
         @ fetch_retry_events throttled_second_page_env (Some ''c1'') 0 (Suc 0) 4
         @ [Get_items (Some ''c1''), Print_summary 2 1]"
proof -
  let ?e = throttled_second_page_env
  let ?cfg = example_config
  note ev = cycle_eval_defs eval_defs throttled_second_page_env_def first_page_def
  have "\<exists>st1. after_turns (Suc 0) ?e ?cfg (cycle_init ?cfg world_init) = Some st1
      \<and> n_get_items (world st1) = 1 \<and> total_checked st1 = 2 \<and> total_promoted st1 = 1
      \<and> total_skipped st1 = 1 \<and> total_errors st1 = 0 \<and> cursor st1 = Some ''c1''
      \<and> consecutive_errors (rate_limiter st1) = 0 \<and> n_random (world st1) = Suc 0
      \<and> trace (world st1) =
          [Get_items None, Get_item_priority_statuses ''a'',
           Increase_item_priority_status ''a'' ''p1'', Sleep (3 / 2)]"
    by (simp add: ev)
  then obtain st1 where
    turn: "after_turns (Suc 0) ?e ?cfg (cycle_init ?cfg world_init) = Some st1"
    and vals: "n_get_items (world st1) = 1" "total_checked st1 = 2" "total_promoted st1 = 1"
      "total_skipped st1 = 1" "total_errors st1 = 0" "cursor st1 = Some ''c1''"
      "consecutive_errors (rate_limiter st1) = 0" "n_random (world st1) = Suc 0"
      "trace (world st1) =
          [Get_items None, Get_item_priority_statuses ''a'',
           Increase_item_priority_status ''a'' ''p1'', Sleep (3 / 2)]"
    by blast
  have k: "(4::nat) < 5" by simp
  have thr: "\<forall>j < 4. fetch_throttled (get_items_reply ?e (n_get_items (world st1) + j))"
    by (simp add: vals throttled_second_page_env_def fetch_throttled_def)
  have lst: "fetch_other_error (get_items_reply ?e (n_get_items (world st1) + 4))
       \<or> (4::nat) = 4 \<and> fetch_throttled (get_items_reply ?e (n_get_items (world st1) + 4))"
    by (simp add: vals throttled_second_page_env_def fetch_throttled_def)
  from page_fetch_failure_ends_cycle [OF turn k thr lst, of 0] obtain st' where
    st': "check_and_update_products (Suc 0 + Suc 0) ?e ?cfg world_init = Some (Fetch_failed, st')"
      "total_errors st' = total_errors st1 + 1" "total_checked st' = total_checked st1"
      "total_promoted st' = total_promoted st1" "total_skipped st' = total_skipped st1"
      "n_get_items (world st') = n_get_items (world st1) + 4 + 1"
      "trace (world st')
         = trace (world st1)
           @ fetch_retry_events ?e (cursor st1) (consecutive_errors (rate_limiter st1))
               (n_random (world st1)) 4
           @ [Get_items (cursor st1), Print_summary (total_checked st1) (total_promoted st1)]"
    by blast
  show ?thesis
    by (rule exI [of _ st']) (use st' vals in simp)
qed

text \<open>The page loop only adds to the trace, and starts with a call of \<open>get_items\<close>.\<close>

lemma fetch_attempts_trace:
  "fetch_attempts e mr as st = (flow, st') \<Longrightarrow>
   \<exists>evs. trace (world st') = trace (world st) @ evs"
proof (induction as arbitrary: st)
  case Nil
  then show ?case by auto
next
  case (Cons a as)
  show ?case
  proof (cases "get_items_reply e (n_get_items (world st))")
    case (Returns page)
    from Cons.prems show ?thesis unfolding fetch_attempts_success [OF Returns] by auto
  next
    case (Raises m)
    show ?thesis
    proof (cases "contains ''429'' m \<or> contains ''TOO_MANY_REQUESTS'' m
        \<or> contains ''Too many attempts'' m")
      case False
      from Cons.prems show ?thesis unfolding fetch_attempts_other_error [OF Raises False]
        by (auto simp add: print_summary_def emit_def)
    next
      case True
      note step = fetch_attempts_throttled [OF Raises True, of mr a as]
      show ?thesis
      proof (cases "int a < mr - 1")
        case False
        with Cons.prems show ?thesis unfolding step backoff_eq
          by (auto simp add: print_summary_def emit_def)
      next
        case True
        with Cons.prems obtain st2 where
          rec: "fetch_attempts e mr as st2 = (flow, st')"
          and t2: "\<exists>evs. trace (world st2) = trace (world st) @ evs"
          unfolding step backoff_eq by (auto simp add: countdown_sleep_def)
        from Cons.IH [OF rec] t2 show ?thesis by auto
      qed
    qed
  qed
qed

lemma fetch_attempts_first_call:
  assumes "fetch_attempts e mr (a # as) st = (flow, st')"
  shows "\<exists>evs. trace (world st') = trace (world st) @ Get_items (cursor st) # evs"
proof (cases "get_items_reply e (n_get_items (world st))")
  case (Returns page)
  from assms show ?thesis unfolding fetch_attempts_success [OF Returns] by auto
next
  case (Raises m)
  show ?thesis
  proof (cases "contains ''429'' m \<or> contains ''TOO_MANY_REQUESTS'' m
      \<or> contains ''Too many attempts'' m")
    case False
    from assms show ?thesis unfolding fetch_attempts_other_error [OF Raises False]
      by (auto simp add: print_summary_def emit_def)
  next
    case True
    note step = fetch_attempts_throttled [OF Raises True, of mr a as]
    show ?thesis
    proof (cases "int a < mr - 1")
      case False
      with assms show ?thesis unfolding step backoff_eq
        by (auto simp add: print_summary_def emit_def)
    next
      case True
      with assms obtain st2 where
        rec: "fetch_attempts e mr as st2 = (flow, st')"
        and t2: "\<exists>evs. trace (world st2) = trace (world st) @ Get_items (cursor st) # evs"
        unfolding step backoff_eq by (auto simp add: countdown_sleep_def)
      from fetch_attempts_trace [OF rec] t2 show ?thesis by auto
    qed
  qed
qed

text \<open>
  C10: an error whose message contains \<open>Too many attempts\<close> but neither \<open>429\<close> nor
  \<open>TOO_MANY_REQUESTS\<close> is throttling for the page loop, which then waits (a countdown
  that is not empty) and calls \<open>get_items\<close> again, and is another error for
  \<open>promote_product_with_retry\<close>, which returns the failure after that single call, the
  rate limiter untouched.
\<close>

theorem throttling_classification_differs:
  assumes "contains ''Too many attempts'' msg"
    and "\<not> contains ''429'' msg" and "\<not> contains ''TOO_MANY_REQUESTS'' msg"
  shows "(get_items_reply e (n_get_items (world st)) = Raises msg \<longrightarrow>
            (\<exists>evs. trace (world (snd (fetch_attempts e page_max_retries
                                        (py_range page_max_retries) st)))
                 = trace (world st) @ Get_items (cursor st)
                   # countdown (py_int (spec_throttled_wait
                        (Suc (consecutive_errors (rate_limiter st)))
                        (random_raw e (n_random (world st)) mod 11)))
                   @ Get_items (cursor st) # evs)
            \<and> countdown (py_int (spec_throttled_wait
                        (Suc (consecutive_errors (rate_limiter st)))
                        (random_raw e (n_random (world st)) mod 11))) \<noteq> [])
    \<and> (promote_reply e (n_promote w) = Raises msg \<and> 1 \<le> mr \<longrightarrow>
          promote_product_with_retry e p pr pub (rl, w) mr =
            ((False, error_msg msg), rl,
             w\<lparr>trace := trace w @ [promote_call p pr pub], n_promote := Suc (n_promote w)\<rparr>))"
proof (intro conjI impI)
  assume r: "get_items_reply e (n_get_items (world st)) = Raises msg"
  let ?W = "spec_throttled_wait (Suc (consecutive_errors (rate_limiter st)))
              (random_raw e (n_random (world st)) mod 11)"
  define st2 where "st2 = st\<lparr>rate_limiter := (rate_limiter st)
        \<lparr>consecutive_errors := Suc (consecutive_errors (rate_limiter st)),
         last_error_time := Some \<lparr>reading_us = clock_us e (n_clock (world st)),
                                   utcoffset_us = Some 0\<rparr>\<rparr>,
      world := countdown_sleep ?W
        ((world st)\<lparr>trace := trace (world st) @ [Get_items (cursor st)],
           n_get_items := Suc (n_get_items (world st)), n_clock := Suc (n_clock (world st)),
           n_random := Suc (n_random (world st))\<rparr>)\<rparr>"
  have range: "py_range page_max_retries = 0 # 1 # [2..<5]"
    by (simp add: py_range_page_max_retries upt_rec)
  from assms(1) have t: "contains ''429'' msg \<or> contains ''TOO_MANY_REQUESTS'' msg
      \<or> contains ''Too many attempts'' msg" by simp
  have eq: "fetch_attempts e page_max_retries (py_range page_max_retries) st
      = fetch_attempts e page_max_retries (1 # [2..<5]) st2"
    unfolding range fetch_attempts_throttled [OF r t] backoff_eq
    by (simp add: st2_def page_max_retries_def)
  obtain flow st' where f: "fetch_attempts e page_max_retries (1 # [2..<5]) st2 = (flow, st')"
    by (cases "fetch_attempts e page_max_retries (1 # [2..<5]) st2") auto
  from fetch_attempts_first_call [OF f] obtain evs where
    "trace (world st') = trace (world st2) @ Get_items (cursor st2) # evs" by blast
  then have "trace (world st') = trace (world st) @ Get_items (cursor st)
      # countdown (py_int ?W) @ Get_items (cursor st) # evs"
    by (simp add: st2_def countdown_sleep_def)
  then show "\<exists>evs. trace (world (snd (fetch_attempts e page_max_retries
                                        (py_range page_max_retries) st)))
                 = trace (world st) @ Get_items (cursor st)
                   # countdown (py_int ?W) @ Get_items (cursor st) # evs"
    unfolding eq f by auto
  show "countdown (py_int ?W) \<noteq> []" by (rule countdown_backoff_not_empty)
next
  assume h: "promote_reply e (n_promote w) = Raises msg \<and> 1 \<le> mr"
  then have "py_range mr = 0 # [Suc 0..<nat mr]"
    by (simp add: py_range_def upt_conv_Cons)
  with h assms(2,3) show "promote_product_with_retry e p pr pub (rl, w) mr =
            ((False, error_msg msg), rl,
             w\<lparr>trace := trace w @ [promote_call p pr pub], n_promote := Suc (n_promote w)\<rparr>)"
    by (simp add: promote_product_with_retry_def promote_attempts_other_error)
qed

theorem throttling_classification_differs_witness:
  "contains ''Too many attempts'' ''Too many attempts, slow down''
   \<and> fetch_attempts (example_env\<lparr>get_items_reply :=
          (\<lambda>k. if k = 0 then Raises ''Too many attempts, slow down''
                else Returns example_page), random_raw := (\<lambda>k. 0)\<rparr>)
        page_max_retries (py_range page_max_retries) (cycle_init example_config world_init)
     = (Break example_page,
        (cycle_init example_config world_init)
          \<lparr>world := \<lparr>trace = [Get_items None, Sleep 5, Sleep 5, Get_items None],
                      n_get_items = 2, n_priority = 0, n_promote = 0, n_clock = 1,
                      n_random = 1\<rparr>\<rparr>)
   \<and> promote_product_with_retry
        (example_env\<lparr>promote_reply := (\<lambda>k. Raises ''Too many attempts, slow down'')\<rparr>)
        (gem ''a'') premium_status True (rate_limiter_init example_config, world_init) 3
     = ((False, error_msg ''Too many attempts, slow down''), rate_limiter_init example_config,
        world_init\<lparr>trace := [Increase_item_priority_status ''a'' ''p1''], n_promote := 1\<rparr>)"
proof -
  let ?m = "''Too many attempts, slow down''"
  have c: "contains ''Too many attempts'' ?m" "\<not> contains ''429'' ?m"
    "\<not> contains ''TOO_MANY_REQUESTS'' ?m"
    by simp_all
  let ?e = "example_env\<lparr>promote_reply := (\<lambda>k. Raises ?m)\<rparr>"
  have h: "promote_reply ?e (n_promote world_init) = Raises ?m \<and> (1::int) \<le> 3"
    by simp
  from throttling_classification_differs [OF c, of ?e _ world_init 3 "gem ''a''" premium_status
      True "rate_limiter_init example_config"] h
  have "promote_product_with_retry ?e (gem ''a'') premium_status True
          (rate_limiter_init example_config, world_init) 3
     = ((False, error_msg ?m), rate_limiter_init example_config,
        world_init\<lparr>trace := trace world_init @ [promote_call (gem ''a'') premium_status True],
                    n_promote := Suc (n_promote world_init)\<rparr>)"
    by blast
  then show ?thesis
    by (simp add: cycle_eval_defs eval_defs c)
qed

end
